theory Spec2Isabelle
  imports Main "HOL-Library.Sublist" "HOL-Library.Multiset" "HOL-Library.AList"
begin

section \<open>Python values used by tools/check\_sha.py\<close>

text \<open>
  Text is a list of characters; a character of the model is a code point below 256.
  An attribute that holds either a string or Python's \<open>None\<close> is a \<open>string option\<close>.
  Every exception the modelled code can raise is a value of \<open>py_error\<close>, and a
  function that can raise returns \<open>py_error + 'a\<close>. \<open>DanglingReference\<close> is no Python
  exception: it is what the model answers for an address outside the store of objects,
  which no Python reference is.
\<close>

datatype py_error = TypeError | ValueError | IndexError | KeyError | AttributeError | OSError | DanglingReference

text \<open>\<open>str.strip()\<close>: Python's whitespace among the code points below 256.\<close>

definition is_space :: "char \<Rightarrow> bool" where
  "is_space c = (c \<in> set [CHR 0x09, CHR 0x0A, CHR 0x0B, CHR 0x0C, CHR 0x0D,
                            CHR 0x1C, CHR 0x1D, CHR 0x1E, CHR 0x1F, CHR 0x20, CHR 0x85, CHR 0xA0])"

definition str_strip :: "string \<Rightarrow> string" where
  "str_strip s = rev (dropWhile is_space (rev (dropWhile is_space s)))"

text \<open>
  \<open>s.replace(old, new)\<close>: the occurrences of \<open>old\<close> are found from the left and do
  not overlap; an empty \<open>old\<close> matches before every character and at the end.
\<close>

fun replace_from :: "string \<Rightarrow> string \<Rightarrow> string \<Rightarrow> string" where
  "replace_from old new [] = []"
| "replace_from old new (c # cs) =
     (if prefix old (c # cs) then new @ replace_from old new (drop (length old - 1) cs)
      else c # replace_from old new cs)"

definition str_replace :: "string \<Rightarrow> string \<Rightarrow> string \<Rightarrow> string" where
  "str_replace s old new =
     (if old = [] then new @ concat (map (\<lambda>c. c # new) s) else replace_from old new s)"

text \<open>\<open>s.split(sep)\<close>: an empty separator raises \<open>ValueError\<close>.\<close>

fun split_from :: "string \<Rightarrow> string \<Rightarrow> string \<Rightarrow> string list" where
  "split_from sep cur [] = [cur]"
| "split_from sep cur (c # cs) =
     (if prefix sep (c # cs) then cur # split_from sep [] (drop (length sep - 1) cs)
      else split_from sep (cur @ [c]) cs)"

definition str_split :: "string \<Rightarrow> string \<Rightarrow> py_error + string list" where
  "str_split s sep = (if sep = [] then Inl ValueError else Inr (split_from sep [] s))"

text \<open>\<open>xs[i]\<close> for a non-negative literal index: \<open>IndexError\<close> out of range.\<close>

definition py_index :: "'a list \<Rightarrow> nat \<Rightarrow> py_error + 'a" where
  "py_index xs i = (if i < length xs then Inr (xs ! i) else Inl IndexError)"

text \<open>\<open>str(x)\<close> and \<open>'{0}'.format(x)\<close> of a string or \<open>None\<close>.\<close>

definition py_str :: "string option \<Rightarrow> string" where
  "py_str x = (case x of None \<Rightarrow> ''None'' | Some s \<Rightarrow> s)"


text \<open>A loop whose body can raise: the first exception ends it.\<close>

fun fold_err :: "('a \<Rightarrow> 's \<Rightarrow> 'e + 's) \<Rightarrow> 'a list \<Rightarrow> 's \<Rightarrow> 'e + 's" where
  "fold_err f [] s = Inr s"
| "fold_err f (x # xs) s = (case f x s of Inl e \<Rightarrow> Inl e | Inr s' \<Rightarrow> fold_err f xs s')"

text \<open>\<open>sep.join(xs)\<close>.\<close>

fun str_join :: "string \<Rightarrow> string list \<Rightarrow> string" where
  "str_join sep [] = []"
| "str_join sep [x] = x"
| "str_join sep (x # y # ys) = x @ sep @ str_join sep (y # ys)"

section \<open>Data structures\<close>

text \<open>
  \<open>class Asset\<close>: six attributes, all \<open>None\<close> after \<open>__init__\<close>.
\<close>

record asset =
  name :: "string option"
  artifact :: "string option"
  repository :: "string option"
  sha1 :: "string option"
  src_sha1 :: "string option"
  old_version :: "string option"

definition Asset :: asset where
  "Asset = \<lparr>name = None, artifact = None, repository = None, sha1 = None,
            src_sha1 = None, old_version = None\<rparr>"

text \<open>
  \<open>Asset.__setitem__\<close>: a key that is not one of the attributes set by the
  initializer is dropped without an error.
\<close>

definition asset_setitem :: "asset \<Rightarrow> string \<Rightarrow> string option \<Rightarrow> asset" where
  "asset_setitem a key val =
     (if key = ''name'' then a\<lparr>name := val\<rparr>
      else if key = ''artifact'' then a\<lparr>artifact := val\<rparr>
      else if key = ''repository'' then a\<lparr>repository := val\<rparr>
      else if key = ''sha1'' then a\<lparr>sha1 := val\<rparr>
      else if key = ''src_sha1'' then a\<lparr>src_sha1 := val\<rparr>
      else if key = ''old_version'' then a\<lparr>old_version := val\<rparr>
      else a)"

text \<open>The attribute read by name, \<open>self.__dict__[key]\<close> for the six keys.\<close>

definition asset_field :: "asset \<Rightarrow> string \<Rightarrow> string option option" where
  "asset_field a key =
     (if key = ''name'' then Some (name a)
      else if key = ''artifact'' then Some (artifact a)
      else if key = ''repository'' then Some (repository a)
      else if key = ''sha1'' then Some (sha1 a)
      else if key = ''src_sha1'' then Some (src_sha1 a)
      else if key = ''old_version'' then Some (old_version a)
      else None)"

definition asset_keys :: "string list" where
  "asset_keys = [''name'', ''artifact'', ''repository'', ''sha1'', ''src_sha1'', ''old_version'']"

text \<open>
  \<open>Asset.__copy__\<close>: a new \<open>Asset()\<close> that receives every entry of
  \<open>self.__dict__\<close> through \<open>__setitem__\<close>.
\<close>

definition asset_copy :: "asset \<Rightarrow> asset" where
  "asset_copy a =
     fold (\<lambda>key new. case asset_field a key of None \<Rightarrow> new | Some v \<Rightarrow> asset_setitem new key v)
       asset_keys Asset"

text \<open>
  \<open>class AssetGroup\<close>. The environment of a group is a Python dict, kept as an
  association list in insertion order; \<open>None\<close> for a group that has none.
\<close>

type_synonym environment = "(string \<times> string) list"

record asset_group =
  source_type :: string
  source :: string
  assets :: "asset list"
  env :: "environment option"

definition AssetGroup :: "string \<Rightarrow> string \<Rightarrow> asset_group" where
  "AssetGroup st src = \<lparr>source_type = st, source = src, assets = [], env = None\<rparr>"

section \<open>Operations of an asset group\<close>

text \<open>
  \<open>AssetGroup.make_replacement_set\<close>: a \<open>TypeError\<close> unless the group is
  sourced from a file, else the comprehension over both asset lists.
\<close>

definition make_replacement_set ::
  "asset_group \<Rightarrow> asset_group \<Rightarrow> py_error + (string option \<times> string option \<times> string option) list" where
  "make_replacement_set self other =
     (if source_type self \<noteq> ''FILE'' then Inl TypeError
      else Inr [(artifact a, sha1 a, sha1 b). a \<leftarrow> assets self, b \<leftarrow> assets other,
                artifact a = artifact b \<and> sha1 a \<noteq> sha1 b \<and> None \<notin> set [sha1 a, sha1 b]])"

text \<open>\<open>AssetGroup.assets_missing_shas\<close>: the names of the assets with no SHA1.\<close>

definition assets_missing_shas :: "asset_group \<Rightarrow> string option list" where
  "assets_missing_shas self = [name asset. asset \<leftarrow> assets self, sha1 asset = None]"

text \<open>\<open>AssetGroup.assets_with_duplicate_shas\<close>: the comprehension over the asset list, twice.\<close>

definition assets_with_duplicate_shas ::
  "asset_group \<Rightarrow> (string option \<times> string option \<times> string option) list" where
  "assets_with_duplicate_shas self =
     [(name asset, name other, sha1 asset). asset \<leftarrow> assets self, other \<leftarrow> assets self,
      artifact asset \<noteq> artifact other \<and> sha1 asset = sha1 other]"

text \<open>
  \<open>AssetGroup.print_validation_summary\<close>: the lines printed and the count returned.
\<close>

definition print_validation_summary :: "asset_group \<Rightarrow> string list \<times> nat" where
  "print_validation_summary self =
     (let no_shas = assets_missing_shas self;
          duplicate_shas = assets_with_duplicate_shas self;
          no_sha_count = length no_shas;
          out1 = (if no_sha_count > 0
                  then (''The following assets in '' @ source self @ '' have no SHA1:'') # map py_str no_shas
                  else [''All assets in in '' @ source self @ '' have SHA1 values.'']);
          duplicate_sha_count = length duplicate_shas;
          out2 = (if duplicate_sha_count > 0
                  then (''The following assets in '' @ source self @ '' have duplicate SHA1 values:'') #
                       map (\<lambda>pair. py_str (fst pair) @ '','' @ py_str (fst (snd pair)) @ '': '' @
                                   py_str (snd (snd pair))) duplicate_shas
                  else [''No duplicate SHA1 values in '' @ source self])
      in (out1 @ out2, no_sha_count + duplicate_sha_count))"

section \<open>Reading a bazel file\<close>

text \<open>
  \<open>parse_property(s, delim)\<close>: \<open>parts[1]\<close> raises \<open>IndexError\<close> when \<open>s\<close> holds no
  \<open>delim\<close>.
\<close>

definition parse_property :: "string \<Rightarrow> string \<Rightarrow> py_error + (string \<times> string)" where
  "parse_property s delim =
     (case str_split s delim of Inl e \<Rightarrow> Inl e | Inr parts \<Rightarrow>
      case py_index parts 0 of Inl e \<Rightarrow> Inl e | Inr p0 \<Rightarrow>
      let key = str_strip (str_replace p0 ''#'' '''') in
      case py_index parts 1 of Inl e \<Rightarrow> Inl e | Inr p1 \<Rightarrow>
      case str_split p1 ''#'' of Inl e \<Rightarrow> Inl e | Inr q \<Rightarrow>
      case py_index q 0 of Inl e \<Rightarrow> Inl e | Inr q0 \<Rightarrow>
      let val = str_replace (str_replace (str_strip q0) [CHR 0x22] '''') '','' '''' in
      Inr (key, val))"


text \<open>
  The three patterns tried on a stripped line with \<open>re.match\<close>:
  \<open>^maven_jar\(.*$\<close> (the rest of the line holds no newline but, possibly, a last one),
  \<open>^\)$\<close>, and \<open>[^=]+=[^=]+\<close> (the first \<open>=\<close> is not the first character and is
  followed by a character other than \<open>=\<close>).
\<close>

definition match_maven_jar :: "string \<Rightarrow> bool" where
  "match_maven_jar line =
     (prefix ''maven_jar('' line \<and>
      (let rest = drop 10 line
       in CHR 0x0A \<notin> set rest \<or>
          (rest \<noteq> [] \<and> last rest = CHR 0x0A \<and> CHR 0x0A \<notin> set (butlast rest))))"

definition match_close :: "string \<Rightarrow> bool" where
  "match_close line = (line = '')'' \<or> line = '')'' @ [CHR 0x0A])"

definition match_assignment :: "string \<Rightarrow> bool" where
  "match_assignment line =
     (takeWhile (\<lambda>c. c \<noteq> CHR ''='') line \<noteq> [] \<and>
      (case dropWhile (\<lambda>c. c \<noteq> CHR ''='') line of
         [] \<Rightarrow> False
       | eq # rest \<Rightarrow> (case rest of [] \<Rightarrow> False | c # cs \<Rightarrow> c \<noteq> CHR ''='')))"

text \<open>
  \<open>known_repos\<close>, and a dict read and written by key: \<open>env[k] = v\<close> is
  \<open>AList.update k v env\<close> (the value is replaced in place, a new key goes to the end).
\<close>

definition known_repos :: "(string \<times> string) list" where
  "known_repos = [(''GERRIT'', ''GERRIT:''), (''GERRIT_API'', ''GERRIT_API:''),
                  (''MAVEN_CENTRAL'', ''MAVEN_CENTRAL:''), (''MAVEN_LOCAL'', ''MAVEN_LOCAL:''),
                  (''ECLIPSE'', ''ECLIPSE:''), (''WANDISCO_ASSETS'', ''WANDISCO:'')]"

text \<open>The truth value of an attribute: \<open>None\<close> and the empty string are false.\<close>

definition py_truthy :: "string option \<Rightarrow> bool" where
  "py_truthy x = (case x of None \<Rightarrow> False | Some s \<Rightarrow> s \<noteq> [])"

text \<open>
  The scanning loop of \<open>assets_from_bazel_file\<close>: the state is \<open>current_asset\<close>, the
  list \<open>assets\<close> of the sections closed so far (here \<open>collected\<close>) and the dict \<open>env\<close> of the
  variables declared outside a \<open>maven_jar\<close> section (here \<open>vars\<close>).
  The file is the list of its lines, as iterating over the open file yields them.
\<close>

type_synonym scan_state = "asset option \<times> asset list \<times> environment"

definition scan_line :: "string \<Rightarrow> scan_state \<Rightarrow> py_error + scan_state" where
  "scan_line raw st =
     (case st of (current_asset, collected, vars) \<Rightarrow>
      let line = str_strip raw;
          current_asset = (if match_maven_jar line then Some Asset else current_asset);
          closing = (current_asset \<noteq> None \<and> match_close line);
          collected = (case current_asset of Some a \<Rightarrow> if closing then collected @ [a] else collected
                       | None \<Rightarrow> collected);
          current_asset = (if closing then None else current_asset)
      in if match_assignment line
         then (case parse_property line ''='' of
                 Inl e \<Rightarrow> Inl e
               | Inr (k, v) \<Rightarrow>
                   (case current_asset of
                      None \<Rightarrow> Inr (current_asset, collected, AList.update k v vars)
                    | Some a \<Rightarrow> Inr (Some (asset_setitem a k (Some v)), collected, vars)))
         else Inr (current_asset, collected, vars))"

fun scan_lines :: "string list \<Rightarrow> scan_state \<Rightarrow> py_error + scan_state" where
  "scan_lines [] st = Inr st"
| "scan_lines (raw # rest) st =
     (case scan_line raw st of Inl e \<Rightarrow> Inl e | Inr st' \<Rightarrow> scan_lines rest st')"

text \<open>
  The post-pass. For every variable, \<open>updated_val\<close> is its value without \<open>' + '\<close> and
  with every variable name replaced by that variable's value as scanned; a value that
  is a key of \<open>known_repos\<close> gets the repository prefix instead. \<open>env.update(updates)\<close>
  then assigns every entry of \<open>updates\<close>.
\<close>

definition resolve_value :: "environment \<Rightarrow> string \<Rightarrow> string" where
  "resolve_value vars v =
     fold (\<lambda>(l, m) updated_val. str_replace updated_val l m) vars (str_replace v '' + '' '''')"

definition resolve_env :: "environment \<Rightarrow> environment" where
  "resolve_env vars =
     (let updates =
            fold (\<lambda>(k, v) updates.
                    let updates = AList.update k (resolve_value vars v) updates
                    in (case map_of known_repos v of
                          Some r \<Rightarrow> AList.update k r updates
                        | None \<Rightarrow> updates))
              vars []
      in fold (\<lambda>(k, v) vars. AList.update k v vars) updates vars)"

text \<open>
  The substitution of the variables into one asset, and the prefix of a known
  repository for a \<open>repository\<close> that still names one.
\<close>

definition substitute_asset :: "string \<times> string \<Rightarrow> asset \<Rightarrow> asset" where
  "substitute_asset kv asset =
     (case kv of (k, v) \<Rightarrow>
      let asset = (case artifact asset of
                     Some s \<Rightarrow> if s \<noteq> []
                               then asset\<lparr>artifact := Some (str_replace (str_replace s '' + '' '''') k v)\<rparr>
                               else asset
                   | None \<Rightarrow> asset)
      in (case repository asset of
            Some r \<Rightarrow> if r \<noteq> [] then asset\<lparr>repository := Some (str_replace r k v)\<rparr> else asset
          | None \<Rightarrow> asset))"

definition resolve_asset :: "environment \<Rightarrow> asset \<Rightarrow> asset" where
  "resolve_asset vars asset =
     (let asset = fold substitute_asset vars asset
      in (case repository asset of
            Some r \<Rightarrow> (case map_of known_repos r of
                         Some c \<Rightarrow> asset\<lparr>repository := Some c\<rparr>
                       | None \<Rightarrow> asset)
          | None \<Rightarrow> asset))"

definition assets_from_bazel_file :: "string \<Rightarrow> string list \<Rightarrow> py_error + asset_group" where
  "assets_from_bazel_file filename file_in =
     (case scan_lines file_in (None, [], []) of
        Inl e \<Rightarrow> Inl e
      | Inr (current_asset, collected, vars) \<Rightarrow>
          let vars = resolve_env vars
          in Inr ((AssetGroup ''FILE'' filename)
                    \<lparr>assets := map (resolve_asset vars) collected, env := Some vars\<rparr>))"

section \<open>Patching the digests of a file\<close>

text \<open>
  \<open>replace_shas_in_file\<close>. The file is rewritten by \<open>sed\<close> only, once for every
  replacement; \<open>sed\<close> is a collaborator, a function from its command line and the state
  of the file system to the state it leaves (an exception it raises is caught and
  printed, and the loop goes on).
\<close>

definition replace_shas_in_file ::
  "(string list \<Rightarrow> 'fs \<Rightarrow> 'fs) \<Rightarrow> asset_group \<Rightarrow> asset_group \<Rightarrow> bool \<Rightarrow> 'fs \<Rightarrow> py_error + 'fs" where
  "replace_shas_in_file sed groupA groupB enable_shas fs =
     (case make_replacement_set groupA groupB of
        Inl e \<Rightarrow> Inl e
      | Inr replacements \<Rightarrow>
          Inr (fold (\<lambda>(art, old, new) fs.
                       let cmd = [''sed'', ''-E'', ''-i'', source groupA, ''-e'',
                                  ''s/'' @ py_str old @ ''/'' @ py_str new @ ''/''];
                           cmd = (if enable_shas
                                  then cmd @ [''-e'', ''s/^([^#]*)#(.+'' @ py_str new @ ''.+)$/'' @
                                                    [CHR 0x5C] @ ''1'' @ [CHR 0x5C] @ ''2/'']
                                  else cmd)
                       in sed cmd fs)
                 replacements fs))"

section \<open>Looking an asset up in a repository\<close>

text \<open>
  \<open>subprocess.check_output\<close> is a collaborator: it returns, raises
  \<open>CalledProcessError\<close> with the output of the command, or raises something else. The
  \<open>output\<close> attribute is a \<open>str\<close> or a \<open>bytes\<close> object, as the interpreter and the text
  mode of the call have it; \<open>split('\n')\<close> with a \<open>str\<close> separator raises \<open>TypeError\<close> on
  a \<open>bytes\<close> object. The script runs under Python 3 (its first line) and the call in
  \<open>asset_from_repo\<close> asks for no text mode and decodes nothing, so what the script
  receives there is \<open>bytes\<close>; the loop over the lines is written for a \<open>str\<close>.
\<close>

datatype proc_output = Str string | Bytes string

datatype proc_result = Completed | CalledProcessError proc_output | Raised py_error

text \<open>
  The command line of \<open>asset_from_repo\<close>. \<open>tmp\<close> stands for
  \<open>path.join(gettempdir(), "{0}.{1}".format(jar_name, getpid()))\<close> as a function of
  \<open>jar_name\<close>. Unpacking \<open>asset.artifact.split(':')\<close> into three names raises
  \<open>ValueError\<close> unless there are exactly three parts.
\<close>

definition download_command :: "(string \<Rightarrow> string) \<Rightarrow> asset \<Rightarrow> string option \<Rightarrow> py_error + string list" where
  "download_command tmp asset repo_name =
     (let repo_name = (case repo_name of
                         None \<Rightarrow> ''MAVEN_CENTRAL:''
                       | Some r \<Rightarrow> if r = [] then ''MAVEN_CENTRAL:'' else r)
      in case artifact asset of
           None \<Rightarrow> Inl AttributeError
         | Some art \<Rightarrow>
             (case str_split art '':'' of
                Inl e \<Rightarrow> Inl e
              | Inr parts \<Rightarrow>
                  (case parts of
                     [vendor, nm, version] \<Rightarrow>
                       let jar_name = nm @ ''-'' @ version @ ''.jar'';
                           tmp_file = tmp jar_name;
                           url = str_join ''/'' [repo_name, str_replace vendor ''.'' ''/'', nm,
                                                version, jar_name]
                       in Inr [''tools/download_file.py'', ''-o'', tmp_file, ''-u'', url,
                               ''-v'', ''xxxxxxxxxxx'']
                   | _ \<Rightarrow> Inl ValueError)))"

text \<open>
  The loop over the lines of the failed command's output: \<open>line.split(' ')[1]\<close> of every
  line that starts with \<open>received\<close>, the last one standing.
\<close>

fun received_sha :: "string list \<Rightarrow> string option \<Rightarrow> py_error + string option" where
  "received_sha [] new_sha = Inr new_sha"
| "received_sha (line # rest) new_sha =
     (if prefix ''received'' line
      then (case str_split line '' '' of
              Inl e \<Rightarrow> Inl e
            | Inr ws \<Rightarrow> (case py_index ws 1 of
                           Inl e \<Rightarrow> Inl e
                         | Inr w \<Rightarrow> received_sha rest (Some w)))
      else received_sha rest new_sha)"

text \<open>The \<open>try\<close> statement: the digest found, \<open>None\<close> when the command did not fail.\<close>

definition lookup_sha :: "proc_result \<Rightarrow> py_error + string option" where
  "lookup_sha res =
     (case res of
        Completed \<Rightarrow> Inr None
      | Raised e \<Rightarrow> Inl e
      | CalledProcessError out \<Rightarrow>
          (case out of
             Bytes b \<Rightarrow> Inl TypeError
           | Str s \<Rightarrow> (case str_split s [CHR 0x0A] of
                         Inl e \<Rightarrow> Inl e
                       | Inr ls \<Rightarrow> received_sha ls None)))"

text \<open>
  \<open>asset_from_repo\<close> over a store of objects. An \<open>Asset\<close> object lives at an address of
  the store (a list, the address is the index); \<open>copy(asset)\<close> puts a new object at the
  end of the store and \<open>new_asset.sha1 = new_sha\<close> writes to that object. The function
  returns the store it leaves and the address of \<open>new_asset\<close>. (The temporary file it
  removes is not part of the model.)
\<close>

type_synonym store = "asset list"

definition asset_from_repo ::
  "(string list \<Rightarrow> proc_result) \<Rightarrow> (string \<Rightarrow> string) \<Rightarrow> store \<Rightarrow> nat \<Rightarrow> string option \<Rightarrow>
     py_error + (store \<times> nat)" where
  "asset_from_repo run tmp h asset repo_name =
     (if length h \<le> asset then Inl DanglingReference
      else case download_command tmp (h ! asset) repo_name of
             Inl e \<Rightarrow> Inl e
           | Inr cmd \<Rightarrow>
               let new_asset = length h;
                   h = h @ [asset_copy (h ! asset)]
               in (case lookup_sha (run cmd) of
                     Inl e \<Rightarrow> Inl e
                   | Inr new_sha \<Rightarrow>
                       if py_truthy new_sha
                       then Inr (h[new_asset := (h ! new_asset)\<lparr>sha1 := new_sha\<rparr>], new_asset)
                       else Inr (h, new_asset)))"

text \<open>The same function on values: the object it returns, given the object it receives.\<close>

definition asset_from_repo_value ::
  "(string list \<Rightarrow> proc_result) \<Rightarrow> (string \<Rightarrow> string) \<Rightarrow> asset \<Rightarrow> string option \<Rightarrow> py_error + asset" where
  "asset_from_repo_value run tmp asset repo_name =
     (case download_command tmp asset repo_name of
        Inl e \<Rightarrow> Inl e
      | Inr cmd \<Rightarrow>
          let new_asset = asset_copy asset
          in (case lookup_sha (run cmd) of
                Inl e \<Rightarrow> Inl e
              | Inr new_sha \<Rightarrow>
                  if py_truthy new_sha then Inr (new_asset\<lparr>sha1 := new_sha\<rparr>) else Inr new_asset))"

section \<open>Versions from the bom\<close>

text \<open>
  \<open>process_assets\<close>. \<open>properties\<close> is a dict read by key; \<open>assets_to_update\<close> and
  \<open>skipped_assets\<close> are dicts whose keys are asset names (a name can be \<open>None\<close>). What the
  function prints is left out, and with it the use of \<open>check\<close>. The body of the loop:
\<close>

type_synonym asset_dict = "string option \<rightharpoonup> asset"

definition jgit_artifact_id :: string where
  "jgit_artifact_id = ''org.eclipse.jgit''"

definition process_asset ::
  "(string list \<Rightarrow> proc_result) \<Rightarrow> (string \<Rightarrow> string) \<Rightarrow> (string \<rightharpoonup> string) \<Rightarrow> asset \<Rightarrow>
     asset_dict \<times> asset_dict \<Rightarrow> py_error + (asset_dict \<times> asset_dict)" where
  "process_asset run tmp properties asset dicts =
     (case dicts of (assets_to_update, skipped_assets) \<Rightarrow>
      case artifact asset of
        None \<Rightarrow> Inl AttributeError
      | Some art \<Rightarrow>
      case str_split art '':'' of Inl e \<Rightarrow> Inl e | Inr artifact_split \<Rightarrow>
      case py_index artifact_split 0 of Inl e \<Rightarrow> Inl e | Inr group_id \<Rightarrow>
      case py_index artifact_split 1 of Inl e \<Rightarrow> Inl e | Inr artifact_id \<Rightarrow>
      case py_index artifact_split 2 of Inl e \<Rightarrow> Inl e | Inr version \<Rightarrow>
      let property_key = (if artifact_id = jgit_artifact_id then artifact_id
                          else group_id @ ''.'' @ artifact_id) @ ''.version''
      in case properties property_key of
           None \<Rightarrow> Inr (assets_to_update, skipped_assets)
         | Some property_version \<Rightarrow>
             if version = property_version
             then Inr (assets_to_update, skipped_assets(name asset \<mapsto> asset))
             else
               let new_asset = asset_copy asset;
                   new_asset = new_asset\<lparr>artifact :=
                                 Some (group_id @ '':'' @ artifact_id @ '':'' @ property_version)\<rparr>;
                   new_asset = new_asset\<lparr>old_version := Some version\<rparr>
               in (case asset_from_repo_value run tmp new_asset (repository new_asset) of
                     Inl e \<Rightarrow> Inl e
                   | Inr new_asset \<Rightarrow>
                       if artifact_id = jgit_artifact_id
                       then Inr (assets_to_update(Some artifact_id \<mapsto> new_asset), skipped_assets)
                       else Inr (assets_to_update(name new_asset \<mapsto> new_asset), skipped_assets)))"

definition process_assets ::
  "(string list \<Rightarrow> proc_result) \<Rightarrow> (string \<Rightarrow> string) \<Rightarrow> (string \<rightharpoonup> string) \<Rightarrow> asset_group list \<Rightarrow>
     bool \<Rightarrow> py_error + (asset_dict \<times> asset_dict)" where
  "process_assets run tmp properties build_file_assets check =
     fold_err (process_asset run tmp properties) (concat (map assets build_file_assets))
       (Map.empty, Map.empty)"
section \<open>Updating a bazel file\<close>

text \<open>
  \<open>update_bazel_file\<close> reads \<open>getattr(new_asset, k)\<close> for a key \<open>k\<close> of the file. The value
  of an attribute is a string, \<open>None\<close>, or another object, of which only \<open>str()\<close> is
  used. The six attributes of \<open>Asset.__init__\<close> hold a string or \<open>None\<close>; the other
  attributes an \<open>Asset\<close> object has (its methods, and what it inherits from \<open>object\<close>) are
  a parameter \<open>other_attrs\<close> of the model.
\<close>

datatype attr_value = AStr string | ANone | AObject string

definition attr_of_field :: "string option \<Rightarrow> attr_value" where
  "attr_of_field x = (case x of None \<Rightarrow> ANone | Some s \<Rightarrow> AStr s)"

definition py_getattr :: "(string \<rightharpoonup> attr_value) \<Rightarrow> asset \<Rightarrow> string \<Rightarrow> attr_value option" where
  "py_getattr other_attrs a k =
     (case asset_field a k of Some x \<Rightarrow> Some (attr_of_field x) | None \<Rightarrow> other_attrs k)"

definition attr_str :: "attr_value \<Rightarrow> string" where
  "attr_str x = (case x of AStr s \<Rightarrow> s | ANone \<Rightarrow> ''None'' | AObject r \<Rightarrow> r)"

text \<open>\<open>re.match(".*:.*\+", v)\<close>: before the first newline, a \<open>+\<close> after a \<open>:\<close>.\<close>

definition match_colon_plus :: "string \<Rightarrow> bool" where
  "match_colon_plus v =
     (let pre = takeWhile (\<lambda>c. c \<noteq> CHR 0x0A) v
      in CHR '':'' \<in> set pre \<and> CHR ''+'' \<in> set (dropWhile (\<lambda>c. c \<noteq> CHR '':'') pre))"

text \<open>
  The state of the loop: the dicts \<open>env\<close>, \<open>env_line\<close> and \<open>updated_assets\<close>, the list
  \<open>data\<close> of the lines, and \<open>current_asset\<close>.
\<close>

record update_state =
  u_env :: "string \<rightharpoonup> string"
  u_env_line :: "string \<rightharpoonup> nat"
  u_updated_assets :: asset_dict
  u_data :: "string list"
  u_current_asset :: "asset option"

text \<open>
  The branch for an artifact that holds a variable: the declaration of the variable
  is rewritten, with its indentation, when its line number is not 0 and its value
  is not the new version. \<open>env_line[env_variable]\<close> raises \<open>KeyError\<close> for a variable that
  was not declared.
\<close>

definition patch_variable :: "asset \<Rightarrow> string \<Rightarrow> update_state \<Rightarrow> py_error + update_state" where
  "patch_variable new_asset v st =
     (case str_split v ''+'' of Inl e \<Rightarrow> Inl e | Inr ps \<Rightarrow>
      case py_index ps 1 of Inl e \<Rightarrow> Inl e | Inr p1 \<Rightarrow>
      let env_variable = str_strip p1
      in case u_env_line st env_variable of None \<Rightarrow> Inl KeyError | Some line_num \<Rightarrow>
         case artifact new_asset of None \<Rightarrow> Inl AttributeError | Some new_artifact \<Rightarrow>
         case str_split new_artifact '':'' of Inl e \<Rightarrow> Inl e | Inr vs \<Rightarrow>
         case py_index vs 2 of Inl e \<Rightarrow> Inl e | Inr version \<Rightarrow>
         if line_num = 0 then Inr st
         else case u_env st env_variable of None \<Rightarrow> Inl KeyError | Some declared \<Rightarrow>
              if declared = version then Inr st
              else case py_index (u_data st) line_num of Inl e \<Rightarrow> Inl e | Inr line \<Rightarrow>
                   let indent_amount = length line - length (dropWhile (\<lambda>c. c = CHR '' '') line)
                   in Inr (st\<lparr>u_data := (u_data st)
                                 [line_num := replicate indent_amount (CHR '' '') @ env_variable @
                                              '' = '' @ [CHR 0x22] @ version @ [CHR 0x22, CHR 0x0A]],
                              u_updated_assets := (u_updated_assets st)(name new_asset \<mapsto> new_asset)\<rparr>))"

text \<open>
  The branch for any other field: the new line, and whether the asset is recorded in
  \<open>updated_assets\<close>. Joining a string with \<open>None\<close>, and \<open>in\<close> applied to \<open>None\<close>, raise
  \<open>TypeError\<close>.
\<close>

definition patch_field ::
  "(string \<rightharpoonup> attr_value) \<Rightarrow> asset \<Rightarrow> string \<Rightarrow> string \<Rightarrow> string \<Rightarrow> py_error + (string \<times> bool)" where
  "patch_field other_attrs new_asset k v original_line =
     (case py_getattr other_attrs new_asset k of
        None \<Rightarrow> Inr (original_line, False)
      | Some new_val \<Rightarrow>
          if AStr v = new_val then Inr (original_line, False)
          else if k = ''sha1'' then
            (case artifact new_asset of
               None \<Rightarrow> Inl TypeError
             | Some new_artifact \<Rightarrow>
                 if sublist ''SNAPSHOT'' new_artifact
                 then (case new_val of
                         AStr s \<Rightarrow> Inr (''    #'' @ k @ '' = '' @ [CHR 0x22] @ s @ [CHR 0x22] @ '','' @
                                         [CHR 0x0A], False)
                       | _ \<Rightarrow> Inl TypeError)
                 else Inr (''        '' @ k @ '' = '' @ [CHR 0x22] @ attr_str new_val @ [CHR 0x22] @
                           '','' @ [CHR 0x0A], False))
          else if k = ''repository'' then
            (case new_val of
               AStr s \<Rightarrow>
                 let new_val = (if CHR '':'' \<in> set s then str_replace s '':'' [] else s);
                     new_val = (if new_val = ''WANDISCO'' then new_val @ ''_ASSETS'' else new_val)
                 in Inr (''        '' @ k @ '' = '' @ new_val @ '','' @ [CHR 0x0A], False)
             | _ \<Rightarrow> Inl TypeError)
          else Inr (''        '' @ k @ '' = '' @ [CHR 0x22] @ attr_str new_val @ [CHR 0x22] @ '','' @
                    [CHR 0x0A], k = ''artifact''))"

text \<open>
  The body of the loop, for the line at index \<open>count\<close> (here \<open>cnt\<close>); first its part for
  a field \<open>k = v\<close> read inside a \<open>maven_jar\<close> section, with \<open>a\<close> the current asset.
\<close>

definition update_asset_field ::
  "(string \<rightharpoonup> attr_value) \<Rightarrow> asset_dict \<Rightarrow> nat \<Rightarrow> string \<Rightarrow> string \<Rightarrow> string \<Rightarrow> asset \<Rightarrow>
     update_state \<Rightarrow> py_error + update_state" where
  "update_asset_field other_attrs assets_to_update cnt original_line k v a st =
     (let current_asset = asset_setitem a k (Some v);
          st = st\<lparr>u_current_asset := Some current_asset\<rparr>
      in case assets_to_update (name current_asset) of
           None \<Rightarrow> Inr (st\<lparr>u_data := (u_data st)[cnt := original_line]\<rparr>)
         | Some new_asset \<Rightarrow>
             if k = ''artifact'' \<and> match_colon_plus v
             then (case patch_variable new_asset v st of
                     Inl e \<Rightarrow> Inl e
                   | Inr st \<Rightarrow> Inr (st\<lparr>u_data := (u_data st)[cnt := original_line]\<rparr>))
             else (case patch_field other_attrs new_asset k v original_line of
                     Inl e \<Rightarrow> Inl e
                   | Inr (new_line, artifact_updated) \<Rightarrow>
                       let st = (if artifact_updated
                                 then st\<lparr>u_updated_assets :=
                                           (u_updated_assets st)(name new_asset \<mapsto> new_asset)\<rparr>
                                 else st)
                       in Inr (st\<lparr>u_data := (u_data st)[cnt := new_line]\<rparr>)))"

definition update_line ::
  "(string \<rightharpoonup> attr_value) \<Rightarrow> asset_dict \<Rightarrow> nat \<Rightarrow> update_state \<Rightarrow> py_error + update_state" where
  "update_line other_attrs assets_to_update cnt st =
     (case py_index (u_data st) cnt of Inl e \<Rightarrow> Inl e | Inr original_line \<Rightarrow>
      let line = str_strip original_line
      in if match_maven_jar line then Inr (st\<lparr>u_current_asset := Some Asset\<rparr>)
         else if u_current_asset st \<noteq> None \<and> match_close line
         then Inr (st\<lparr>u_current_asset := None\<rparr>)
         else if match_assignment line
         then (case parse_property line ''='' of Inl e \<Rightarrow> Inl e | Inr (k, v) \<Rightarrow>
               case u_current_asset st of
                 None \<Rightarrow> Inr (st\<lparr>u_env := (u_env st)(k \<mapsto> v),
                                 u_env_line := (u_env_line st)(k \<mapsto> cnt)\<rparr>)
               | Some a \<Rightarrow>
                   update_asset_field other_attrs assets_to_update cnt original_line k v a st)
         else Inr st)"

text \<open>
  \<open>update_bazel_file\<close>, given the lines read from the file: the lines it writes back
  and \<open>updated_assets\<close>. When the loop raises, nothing is written.
\<close>

definition update_start :: "string list \<Rightarrow> update_state" where
  "update_start data =
     \<lparr>u_env = Map.empty, u_env_line = Map.empty, u_updated_assets = Map.empty,
      u_data = data, u_current_asset = None\<rparr>"

definition update_bazel_file ::
  "(string \<rightharpoonup> attr_value) \<Rightarrow> string list \<Rightarrow> asset_dict \<Rightarrow> py_error + (string list \<times> asset_dict)" where
  "update_bazel_file other_attrs data assets_to_update =
     (case fold_err (update_line other_attrs assets_to_update) [0..<length data] (update_start data) of
        Inl e \<Rightarrow> Inl e
      | Inr st \<Rightarrow> Inr (u_data st, u_updated_assets st))"
section \<open>Definitions used to state the properties\<close>

text \<open>
  The unordered pairs of the entries of a list, by position: each pair of positions
  \<open>i < j\<close> once, the earlier entry first.
\<close>

fun unordered_pairs :: "'a list \<Rightarrow> ('a \<times> 'a) list" where
  "unordered_pairs [] = []"
| "unordered_pairs (x # xs) = map (Pair x) xs @ unordered_pairs xs"

text \<open>
  The duplicate pairs of a list of records: the unordered pairs with different artifact
  and the same sha1, which is not absent; \<open>report a b\<close> is the tuple the code builds
  for the ordered pair \<open>(a, b)\<close>.
\<close>

definition duplicate_pairs :: "asset list \<Rightarrow> (asset \<times> asset) list" where
  "duplicate_pairs xs =
     filter (\<lambda>(a, b). artifact a \<noteq> artifact b \<and> sha1 a = sha1 b \<and> sha1 a \<noteq> None) (unordered_pairs xs)"

definition report :: "asset \<Rightarrow> asset \<Rightarrow> string option \<times> string option \<times> string option" where
  "report a b = (name a, name b, sha1 a)"

text \<open>Two records \<open>com.x:a:1.0\<close> and \<open>com.x:b:1.0\<close> that share the digest \<open>ccc\<close>.\<close>

definition scenario4 :: asset_group where
  "scenario4 = \<lparr>source_type = ''FILE'', source = ''WORKSPACE'',
     assets = [Asset\<lparr>name := Some ''a'', artifact := Some ''com.x:a:1.0'', sha1 := Some ''ccc''\<rparr>,
               Asset\<lparr>name := Some ''b'', artifact := Some ''com.x:b:1.0'', sha1 := Some ''ccc''\<rparr>],
     env = Some []\<rparr>"

text \<open>The same two records without a digest.\<close>

definition no_digests :: asset_group where
  "no_digests = \<lparr>source_type = ''FILE'', source = ''WORKSPACE'',
     assets = [Asset\<lparr>name := Some ''a'', artifact := Some ''com.x:a:1.0''\<rparr>,
               Asset\<lparr>name := Some ''b'', artifact := Some ''com.x:b:1.0''\<rparr>],
     env = Some []\<rparr>"


text \<open>
  The value of a variable after the environment pass: for a dict, \<open>resolve_env\<close>
  replaces every value \<open>v\<close> by \<open>resolved_value vars v\<close> (lemma \<open>resolve_env_map\<close>).
\<close>

definition resolved_value :: "environment \<Rightarrow> string \<Rightarrow> string" where
  "resolved_value vars v =
     (case map_of known_repos v of Some r \<Rightarrow> r | None \<Rightarrow> resolve_value vars v)"

text \<open>Three variables declared in a chain, each before its use.\<close>

definition chain_env :: environment where
  "chain_env = [(''_BASE'', ''1.0''), (''_MID'', ''_BASE''), (''_VER'', ''_MID'')]"

text \<open>
  A literal, a concatenation that refers to it (\<open>_LIB_VERS = "lib-" + _VERS\<close>, as
  scanned) and a repository alias.
\<close>

definition flat_env :: environment where
  "flat_env = [(''_VERS'', ''1.2.3''), (''_LIB_VERS'', ''lib- + _VERS''), (''REPO'', ''GERRIT'')]"

text \<open>
  A value is literal in an environment when it is not empty, holds no \<open>+\<close>, its first
  character occurs in no declared name and in no key of \<open>known_repos\<close>, and the first
  character of no declared name occurs in it. A name is referenced when it occurs in a
  value of the environment, the \<open>' + '\<close> tokens of the value deleted.
\<close>

definition literal_value :: "environment \<Rightarrow> string \<Rightarrow> bool" where
  "literal_value vars m =
     (m \<noteq> [] \<and> CHR ''+'' \<notin> set m \<and>
      list_all (\<lambda>(p, u). hd m \<notin> set p \<and> hd p \<notin> set m) vars \<and>
      list_all (\<lambda>(a, r). hd m \<notin> set a) known_repos)"

definition referenced :: "environment \<Rightarrow> string \<Rightarrow> bool" where
  "referenced vars k = list_ex (\<lambda>(p, u). sublist k (str_replace u '' + '' [])) vars"

text \<open>
  An environment has depth one when it is a dict (no key occurs twice) and, for every
  binding: the name is not empty and occurs in no prefix of \<open>known_repos\<close>; the value
  without its \<open>' + '\<close> tokens holds no \<open>+\<close>, and is a key of \<open>known_repos\<close> only if the value
  itself is one; and the value is literal or the name is not referenced. So what a
  value refers to is a literal.
\<close>

definition depth_one :: "environment \<Rightarrow> bool" where
  "depth_one vars =
     (distinct (map fst vars) \<and>
      list_all (\<lambda>(k, v).
          k \<noteq> [] \<and> list_all (\<lambda>(a, r). \<not> sublist k r) known_repos \<and>
          CHR ''+'' \<notin> set (str_replace v '' + '' []) \<and>
          (map_of known_repos (str_replace v '' + '' []) = None \<or> map_of known_repos v \<noteq> None) \<and>
          (literal_value vars v \<or> \<not> referenced vars k)) vars)"

text \<open>A field mentions a name when it is a string that holds the name as a substring.\<close>

definition mentions :: "string option \<Rightarrow> string \<Rightarrow> bool" where
  "mentions field p = (case field of None \<Rightarrow> False | Some s \<Rightarrow> sublist p s)"

text \<open>
  An environment is separated when no name and no value is empty, the first character
  of every value occurs in no name, and the first character of every name occurs in no
  value.
\<close>

definition separated :: "environment \<Rightarrow> bool" where
  "separated vars =
     list_all (\<lambda>(k, v). k \<noteq> [] \<and> v \<noteq> [] \<and>
                 list_all (\<lambda>(l, m). hd v \<notin> set l \<and> hd l \<notin> set v) vars) vars"

text \<open>
  No value of the environment holds a \<open>+\<close>, and neither does the field once its \<open>' + '\<close>
  tokens are deleted.
\<close>

definition plus_free :: "environment \<Rightarrow> string option \<Rightarrow> bool" where
  "plus_free vars field =
     (list_all (\<lambda>(k, v). CHR ''+'' \<notin> set v) vars \<and>
      (case field of None \<Rightarrow> True | Some s \<Rightarrow> CHR ''+'' \<notin> set (str_replace s '' + '' '''')))"

text \<open>What one step of the substitution loop does to each of the two fields.\<close>

definition substitute_artifact :: "string \<times> string \<Rightarrow> string option \<Rightarrow> string option" where
  "substitute_artifact kv field =
     (case field of
        Some s \<Rightarrow> if s \<noteq> [] then Some (str_replace (str_replace s '' + '' '''') (fst kv) (snd kv))
                  else field
      | None \<Rightarrow> None)"

definition substitute_repository :: "string \<times> string \<Rightarrow> string option \<Rightarrow> string option" where
  "substitute_repository kv field =
     (case field of
        Some r \<Rightarrow> if r \<noteq> [] then Some (str_replace r (fst kv) (snd kv)) else field
      | None \<Rightarrow> None)"

text \<open>
  A file that declares three variables in a chain and one record that uses the last,
  and the file of scenario 1.
\<close>

definition chain_file :: "string list" where
  "chain_file =
    [''_BASE = '' @ [CHR 0x22] @ ''1.0'' @ [CHR 0x22, CHR 0x0A],
     ''_MID = _BASE'' @ [CHR 0x0A],
     ''_VER = _MID'' @ [CHR 0x0A],
     ''maven_jar('' @ [CHR 0x0A],
     ''    name = '' @ [CHR 0x22] @ ''lib'' @ [CHR 0x22] @ '','' @ [CHR 0x0A],
     ''    artifact = '' @ [CHR 0x22] @ ''com.x:lib:'' @ [CHR 0x22] @ '' + _VER,'' @ [CHR 0x0A],
     ''    sha1 = '' @ [CHR 0x22] @ ''aaa'' @ [CHR 0x22] @ '','' @ [CHR 0x0A],
     '')'' @ [CHR 0x0A]]"

definition scenario1_file :: "string list" where
  "scenario1_file =
    [''VERSION = '' @ [CHR 0x22] @ ''1.2.3'' @ [CHR 0x22, CHR 0x0A],
     ''maven_jar('' @ [CHR 0x0A],
     ''    name = '' @ [CHR 0x22] @ ''lib'' @ [CHR 0x22] @ '','' @ [CHR 0x0A],
     ''    artifact = '' @ [CHR 0x22] @ ''com.x:lib:'' @ [CHR 0x22] @ '' + VERSION,'' @ [CHR 0x0A],
     ''    repository = MAVEN_CENTRAL,'' @ [CHR 0x0A],
     ''    sha1 = '' @ [CHR 0x22] @ ''aaa'' @ [CHR 0x22] @ '','' @ [CHR 0x0A],
     '')'' @ [CHR 0x0A]]"


text \<open>The group that \<open>assets_from_bazel_file\<close> builds from the file of scenario 1.\<close>

definition scenario1_group :: asset_group where
  "scenario1_group =
     \<lparr>source_type = ''FILE'', source = ''WORKSPACE'',
      assets = [\<lparr>name = Some ''lib'', artifact = Some ''com.x:lib:1.2.3'',
                 repository = Some ''MAVEN_CENTRAL:'', sha1 = Some ''aaa'',
                 src_sha1 = None, old_version = None\<rparr>],
      env = Some [(''VERSION'', ''1.2.3'')]\<rparr>"


text \<open>
  One record, a path for the temporary file, and a collaborator whose command fails, as
  the code wants it to, with the two lines that report the digest \<open>bbb\<close>; the output is
  the \<open>bytes\<close> object that \<open>check_output\<close> gives the script.
\<close>

definition lib_asset :: asset where
  "lib_asset = \<lparr>name = Some ''lib'', artifact = Some ''com.x:lib:1.2.3'',
                 repository = Some ''MAVEN_CENTRAL:'', sha1 = Some ''aaa'',
                 src_sha1 = None, old_version = None\<rparr>"

definition tmp_4242 :: "string \<Rightarrow> string" where
  "tmp_4242 jar_name = ''/tmp/'' @ jar_name @ ''.4242''"

definition failed_download :: "string list \<Rightarrow> proc_result" where
  "failed_download cmd =
     CalledProcessError (Bytes (''expected xxxxxxxxxxx'' @ [CHR 0x0A] @ ''received bbb'' @ [CHR 0x0A]))"

text \<open>
  The digest that a run of the command reports: the command failed with a text output,
  the output has a line that starts with \<open>received\<close>, and the second of the words of the
  last such line (what stands between its first space and the next) is not empty; that
  word is the digest.
\<close>

definition second_word :: "string \<Rightarrow> string" where
  "second_word line = takeWhile (\<lambda>c. c \<noteq> CHR '' '') (tl (dropWhile (\<lambda>c. c \<noteq> CHR '' '') line))"

definition found_digest :: "proc_result \<Rightarrow> string option" where
  "found_digest res =
     (case res of
        CalledProcessError (Str out) \<Rightarrow>
          (let received = filter (prefix ''received'') (split_from [CHR 0x0A] [] out)
           in if received = [] \<or> second_word (last received) = [] then None
              else Some (second_word (last received)))
      | _ \<Rightarrow> None)"


text \<open>
  A file with one record, and the record selected to replace it: a snapshot build with
  another digest (scenario 3).
\<close>

definition snapshot_file :: "string list" where
  "snapshot_file =
    [''maven_jar('' @ [CHR 0x0A],
     ''    name = '' @ [CHR 0x22] @ ''lib'' @ [CHR 0x22] @ '','' @ [CHR 0x0A],
     ''    artifact = '' @ [CHR 0x22] @ ''com.x:lib:1.2.3'' @ [CHR 0x22] @ '','' @ [CHR 0x0A],
     ''    sha1 = '' @ [CHR 0x22] @ ''aaa'' @ [CHR 0x22] @ '','' @ [CHR 0x0A],
     '')'' @ [CHR 0x0A]]"

definition snapshot_asset :: asset where
  "snapshot_asset = \<lparr>name = Some ''lib'', artifact = Some ''com.x:lib:1.3.0-SNAPSHOT'',
                 repository = None, sha1 = Some ''bbb'',
                 src_sha1 = None, old_version = Some ''1.2.3''\<rparr>"

text \<open>The same record with its \<open>sha1\<close> line before its \<open>name\<close> line.\<close>

definition late_name_file :: "string list" where
  "late_name_file =
    [''maven_jar('' @ [CHR 0x0A],
     ''    sha1 = '' @ [CHR 0x22] @ ''aaa'' @ [CHR 0x22] @ '','' @ [CHR 0x0A],
     ''    name = '' @ [CHR 0x22] @ ''lib'' @ [CHR 0x22] @ '','' @ [CHR 0x0A],
     ''    artifact = '' @ [CHR 0x22] @ ''com.x:lib:1.2.3'' @ [CHR 0x22] @ '','' @ [CHR 0x0A],
     '')'' @ [CHR 0x0A]]"

section \<open>Properties\<close>

lemma asset_copy_eq: "asset_copy a = a"
  by (simp add: asset_copy_def asset_keys_def asset_field_def asset_setitem_def Asset_def)

subsection \<open>The replacement set\<close>

lemma replacement_comprehension_mem:
  "t \<in> set [(artifact a, sha1 a, sha1 b). a \<leftarrow> xs, b \<leftarrow> ys,
                artifact a = artifact b \<and> sha1 a \<noteq> sha1 b \<and> None \<notin> set [sha1 a, sha1 b]] \<longleftrightarrow>
     (\<exists>a \<in> set xs. \<exists>b \<in> set ys.
        t = (artifact a, sha1 a, sha1 b) \<and> artifact a = artifact b \<and>
        sha1 a \<noteq> sha1 b \<and> sha1 a \<noteq> None \<and> sha1 b \<noteq> None)"
  (is "?l \<longleftrightarrow> ?r")
proof
  assume ?l
  then obtain a b where "a \<in> set xs" "b \<in> set ys" "t = (artifact a, sha1 a, sha1 b)"
    "artifact a = artifact b" "sha1 a \<noteq> sha1 b" "sha1 a \<noteq> None" "sha1 b \<noteq> None"
    by (auto simp: eq_commute [of None])
  then show ?r by blast
next
  assume ?r
  then obtain a b where "a \<in> set xs" "b \<in> set ys" "t = (artifact a, sha1 a, sha1 b)"
    "artifact a = artifact b" "sha1 a \<noteq> sha1 b" "sha1 a \<noteq> None" "sha1 b \<noteq> None"
    by blast
  then show ?l by (force simp: eq_commute [of None])
qed

text \<open>
  C1. For a group \<open>A\<close> sourced from a file and any group \<open>B\<close>,
  \<open>make_replacement_set A B\<close> returns a list that contains a tuple exactly when it is
  \<open>(a.artifact, a.sha1, b.sha1)\<close> for a record \<open>a\<close> of \<open>A\<close> and a record \<open>b\<close> of \<open>B\<close>
  with equal artifact, different sha1 and neither sha1 absent; no tuple of the list
  has an absent digest on either side.
\<close>

theorem make_replacement_set_iff:
  assumes "source_type A = ''FILE''"
  shows "\<exists>L. make_replacement_set A B = Inr L \<and>
           (\<forall>t. t \<in> set L \<longleftrightarrow>
              (\<exists>a \<in> set (assets A). \<exists>b \<in> set (assets B).
                 t = (artifact a, sha1 a, sha1 b) \<and> artifact a = artifact b \<and>
                 sha1 a \<noteq> sha1 b \<and> sha1 a \<noteq> None \<and> sha1 b \<noteq> None)) \<and>
           (\<forall>(c, old, new) \<in> set L. old \<noteq> None \<and> new \<noteq> None)"
proof -
  define L where "L = [(artifact a, sha1 a, sha1 b). a \<leftarrow> assets A, b \<leftarrow> assets B,
                artifact a = artifact b \<and> sha1 a \<noteq> sha1 b \<and> None \<notin> set [sha1 a, sha1 b]]"
  have ret: "make_replacement_set A B = Inr L"
    using assms by (simp add: make_replacement_set_def L_def)
  have mem: "t \<in> set L \<longleftrightarrow>
              (\<exists>a \<in> set (assets A). \<exists>b \<in> set (assets B).
                 t = (artifact a, sha1 a, sha1 b) \<and> artifact a = artifact b \<and>
                 sha1 a \<noteq> sha1 b \<and> sha1 a \<noteq> None \<and> sha1 b \<noteq> None)" for t
    unfolding L_def by (rule replacement_comprehension_mem)
  have present: "\<forall>(c, old, new) \<in> set L. old \<noteq> None \<and> new \<noteq> None"
    by (auto simp: mem)
  show ?thesis
    by (rule exI [of _ L]) (use ret mem present in blast)
qed

theorem make_replacement_set_iff_witness:
  "\<exists>L. make_replacement_set
          \<lparr>source_type = ''FILE'', source = ''WORKSPACE'',
            assets = [Asset\<lparr>artifact := Some ''com.x:lib:1.2.3'', sha1 := Some ''aaa''\<rparr>,
                      Asset\<lparr>artifact := Some ''com.x:nosha:1.0''\<rparr>], env = None\<rparr>
          \<lparr>source_type = ''REPO'', source = ''MAVEN_CENTRAL:'',
            assets = [Asset\<lparr>artifact := Some ''com.x:lib:1.2.3'', sha1 := Some ''bbb''\<rparr>,
                      Asset\<lparr>artifact := Some ''com.x:nosha:1.0'', sha1 := Some ''ccc''\<rparr>],
            env = None\<rparr> = Inr L \<and>
        L = [(Some ''com.x:lib:1.2.3'', Some ''aaa'', Some ''bbb'')]"
  using make_replacement_set_iff
    [of "\<lparr>source_type = ''FILE'', source = ''WORKSPACE'',
            assets = [Asset\<lparr>artifact := Some ''com.x:lib:1.2.3'', sha1 := Some ''aaa''\<rparr>,
                      Asset\<lparr>artifact := Some ''com.x:nosha:1.0''\<rparr>], env = None\<rparr>"
        "\<lparr>source_type = ''REPO'', source = ''MAVEN_CENTRAL:'',
            assets = [Asset\<lparr>artifact := Some ''com.x:lib:1.2.3'', sha1 := Some ''bbb''\<rparr>,
                      Asset\<lparr>artifact := Some ''com.x:nosha:1.0'', sha1 := Some ''ccc''\<rparr>],
            env = None\<rparr>"]
  by (simp add: make_replacement_set_def Asset_def)

text \<open>
  C3. \<open>make_replacement_set\<close> raises (a \<open>TypeError\<close>) whenever the left-hand group's
  \<open>source_type\<close> is not \<open>'FILE'\<close>, and returns a list, raising nothing, when it is.
\<close>

theorem make_replacement_set_raises:
  "(source_type A \<noteq> ''FILE'' \<longrightarrow> make_replacement_set A B = Inl TypeError) \<and>
   (source_type A = ''FILE'' \<longrightarrow> (\<exists>L. make_replacement_set A B = Inr L))"
  by (simp add: make_replacement_set_def)

theorem make_replacement_set_raises_witness:
  "make_replacement_set (AssetGroup ''DIR'' ''/jars'') (AssetGroup ''FILE'' ''WORKSPACE'') = Inl TypeError \<and>
   (\<exists>L. make_replacement_set (AssetGroup ''FILE'' ''WORKSPACE'') (AssetGroup ''DIR'' ''/jars'') = Inr L)"
  using make_replacement_set_raises [of "AssetGroup ''DIR'' ''/jars''" "AssetGroup ''FILE'' ''WORKSPACE''"]
    make_replacement_set_raises [of "AssetGroup ''FILE'' ''WORKSPACE''" "AssetGroup ''DIR'' ''/jars''"]
  by (simp add: AssetGroup_def)

subsection \<open>Duplicate digests\<close>

lemma concat_if_singleton: "concat (map (\<lambda>b. if P b then [g b] else []) xs) = map g (filter P xs)"
  by (induction xs) auto

lemma filter_cross:
  "filter P (concat (map (\<lambda>a. concat (map (\<lambda>b. if c a b then [f a b] else []) ys)) xs)) =
   concat (map (\<lambda>a. concat (map (\<lambda>b. if c a b \<and> P (f a b) then [f a b] else []) ys)) xs)"
proof -
  have inner: "filter P (concat (map (\<lambda>b. if c a b then [f a b] else []) ys)) =
               concat (map (\<lambda>b. if c a b \<and> P (f a b) then [f a b] else []) ys)" for a
    by (induction ys) auto
  show ?thesis by (induction xs) (simp_all add: inner)
qed

lemma cross_cons_right:
  "mset (concat (map (\<lambda>a. concat (map (\<lambda>b. if c a b then [f a b] else []) (x # ys))) xs)) =
   mset (map (\<lambda>a. f a x) (filter (\<lambda>a. c a x) xs)) +
   mset (concat (map (\<lambda>a. concat (map (\<lambda>b. if c a b then [f a b] else []) ys)) xs))"
  by (induction xs) auto

lemma cross_unordered:
  assumes sym: "\<And>a b. c a b \<longleftrightarrow> c b a" and irr: "\<And>a. \<not> c a a"
  shows "mset (concat (map (\<lambda>a. concat (map (\<lambda>b. if c a b then [f a b] else []) xs)) xs)) =
         mset (map (\<lambda>(a, b). f a b) (filter (\<lambda>(a, b). c a b) (unordered_pairs xs))) +
         mset (map (\<lambda>(a, b). f b a) (filter (\<lambda>(a, b). c a b) (unordered_pairs xs)))"
proof (induction xs)
  case Nil
  then show ?case by simp
next
  case (Cons x xs)
  define A where "A = mset (map (f x) (filter (c x) xs))"
  define B where "B = mset (map (\<lambda>a. f a x) (filter (\<lambda>a. c a x) xs))"
  define U1 where "U1 = mset (map (\<lambda>(a, b). f a b) (filter (\<lambda>(a, b). c a b) (unordered_pairs xs)))"
  define U2 where "U2 = mset (map (\<lambda>(a, b). f b a) (filter (\<lambda>(a, b). c a b) (unordered_pairs xs)))"
  define D where "D = mset (concat (map (\<lambda>a. concat (map (\<lambda>b. if c a b then [f a b] else []) xs)) xs))"
  define R where "R = (\<lambda>a. concat (map (\<lambda>b. if c a b then [f a b] else []) (x # xs)))"
  have head: "mset (R x) = A"
    using irr by (simp add: R_def A_def concat_if_singleton)
  have rest: "mset (concat (map R xs)) = B + D"
    unfolding R_def B_def D_def by (rule cross_cons_right)
  have ih: "D = U1 + U2"
    unfolding D_def U1_def U2_def by (rule Cons.IH)
  have lhs: "mset (concat (map R (x # xs))) = A + (B + (U1 + U2))"
    using head rest ih by simp
  have p1: "map (\<lambda>(a, b). f a b) (filter (\<lambda>(a, b). c a b) (map (Pair x) xs)) = map (f x) (filter (c x) xs)"
    by (induction xs) auto
  have p2: "map (\<lambda>(a, b). f b a) (filter (\<lambda>(a, b). c a b) (map (Pair x) xs)) = map (\<lambda>a. f a x) (filter (\<lambda>a. c a x) xs)"
    using sym by (induction xs) auto
  have r1: "mset (map (\<lambda>(a, b). f a b) (filter (\<lambda>(a, b). c a b) (unordered_pairs (x # xs)))) = A + U1"
    unfolding A_def U1_def p1 [symmetric] by simp
  have r2: "mset (map (\<lambda>(a, b). f b a) (filter (\<lambda>(a, b). c a b) (unordered_pairs (x # xs)))) = B + U2"
    unfolding B_def U2_def p2 [symmetric] by simp
  show ?case
    unfolding r1 r2 using lhs unfolding R_def by (simp add: ac_simps)
qed

text \<open>
  C2, as stated, fails: for the two records \<open>com.x:a:1.0\<close> and \<open>com.x:b:1.0\<close> that
  share one digest, \<open>assets_with_duplicate_shas\<close> returns the pair in both orders and
  \<open>print_validation_summary\<close> returns 2, not 1. The same two records without a digest
  are returned as a pair too, in both orders.
\<close>

theorem duplicate_shas_counterexample:
  "assets_with_duplicate_shas scenario4 =
     [(Some ''a'', Some ''b'', Some ''ccc''), (Some ''b'', Some ''a'', Some ''ccc'')] \<and>
   snd (print_validation_summary scenario4) = 2 \<and>
   snd (print_validation_summary scenario4) \<noteq> 1 \<and>
   assets_with_duplicate_shas no_digests = [(Some ''a'', Some ''b'', None), (Some ''b'', Some ''a'', None)]"
  by (simp add: print_validation_summary_def assets_with_duplicate_shas_def assets_missing_shas_def
      scenario4_def no_digests_def Asset_def Let_def)


text \<open>
  C2, amended. Of the tuples that \<open>assets_with_duplicate_shas\<close> returns, those with a
  digest that is not absent are these: for every unordered pair of records with
  different artifact and the same digest, which is not absent, the tuple
  \<open>(a.name, b.name, digest)\<close> and the tuple \<open>(b.name, a.name, digest)\<close>. In a group whose
  records all have a digest these are all the tuples that are returned, no record
  is listed as missing its digest, and \<open>print_validation_summary\<close> returns twice the
  number of such pairs: two records sharing one digest contribute exactly 2 to the
  issue count. (The tuples returned for records that lack a digest are not described.)
\<close>

theorem duplicate_shas_both_orders:
  "mset (filter (\<lambda>t. snd (snd t) \<noteq> None) (assets_with_duplicate_shas g)) =
     mset (map (\<lambda>(a, b). report a b) (duplicate_pairs (assets g))) +
     mset (map (\<lambda>(a, b). report b a) (duplicate_pairs (assets g))) \<and>
   ((\<forall>a \<in> set (assets g). sha1 a \<noteq> None) \<longrightarrow>
      mset (assets_with_duplicate_shas g) =
        mset (map (\<lambda>(a, b). report a b) (duplicate_pairs (assets g))) +
        mset (map (\<lambda>(a, b). report b a) (duplicate_pairs (assets g))) \<and>
      assets_missing_shas g = [] \<and>
      snd (print_validation_summary g) = 2 * length (duplicate_pairs (assets g)))"
proof -
  define c where "c = (\<lambda>(a::asset) (b::asset). artifact a \<noteq> artifact b \<and> sha1 a = sha1 b \<and> sha1 a \<noteq> None)"
  have sym: "c a b \<longleftrightarrow> c b a" for a b
    unfolding c_def by metis
  have irr: "\<not> c a a" for a
    by (simp add: c_def)
  have present: "filter (\<lambda>t. snd (snd t) \<noteq> None) (assets_with_duplicate_shas g) =
      concat (map (\<lambda>a. concat (map (\<lambda>b. if c a b then [report a b] else []) (assets g))) (assets g))"
    unfolding assets_with_duplicate_shas_def filter_cross c_def report_def
    by (simp add: conj_assoc)
  have ms: "mset (filter (\<lambda>t. snd (snd t) \<noteq> None) (assets_with_duplicate_shas g)) =
     mset (map (\<lambda>(a, b). report a b) (duplicate_pairs (assets g))) +
     mset (map (\<lambda>(a, b). report b a) (duplicate_pairs (assets g)))"
    unfolding present duplicate_pairs_def
    using cross_unordered [of c report "assets g", OF sym irr] by (simp add: c_def)
  have full: "mset (assets_with_duplicate_shas g) =
        mset (map (\<lambda>(a, b). report a b) (duplicate_pairs (assets g))) +
        mset (map (\<lambda>(a, b). report b a) (duplicate_pairs (assets g))) \<and>
      assets_missing_shas g = [] \<and>
      snd (print_validation_summary g) = 2 * length (duplicate_pairs (assets g))"
    if all: "\<forall>a \<in> set (assets g). sha1 a \<noteq> None"
  proof -
    have "\<forall>t \<in> set (assets_with_duplicate_shas g). snd (snd t) \<noteq> None"
      using all by (auto simp add: assets_with_duplicate_shas_def split: if_splits)
    then have same: "filter (\<lambda>t. snd (snd t) \<noteq> None) (assets_with_duplicate_shas g) =
        assets_with_duplicate_shas g"
      by (simp only: filter_True)
    have whole: "mset (assets_with_duplicate_shas g) =
        mset (map (\<lambda>(a, b). report a b) (duplicate_pairs (assets g))) +
        mset (map (\<lambda>(a, b). report b a) (duplicate_pairs (assets g)))"
      using ms unfolding same .
    have "length (assets_with_duplicate_shas g) = size (mset (assets_with_duplicate_shas g))"
      by (simp only: size_mset)
    also have "\<dots> = 2 * length (duplicate_pairs (assets g))"
      unfolding whole by simp
    finally have len: "length (assets_with_duplicate_shas g) = 2 * length (duplicate_pairs (assets g))" .
    have missing: "assets_missing_shas g = []"
      using all by (auto simp add: assets_missing_shas_def)
    have "snd (print_validation_summary g) = 2 * length (duplicate_pairs (assets g))"
      using len missing by (simp add: print_validation_summary_def Let_def)
    with whole missing show ?thesis by simp
  qed
  from ms full show ?thesis by blast
qed

theorem duplicate_shas_both_orders_witness:
  "map sha1 (assets scenario4) = [Some ''ccc'', Some ''ccc''] \<and>
   duplicate_pairs (assets scenario4) =
     [(Asset\<lparr>name := Some ''a'', artifact := Some ''com.x:a:1.0'', sha1 := Some ''ccc''\<rparr>,
       Asset\<lparr>name := Some ''b'', artifact := Some ''com.x:b:1.0'', sha1 := Some ''ccc''\<rparr>)] \<and>
   mset (assets_with_duplicate_shas scenario4) =
     {#(Some ''a'', Some ''b'', Some ''ccc''), (Some ''b'', Some ''a'', Some ''ccc'')#} \<and>
   snd (print_validation_summary scenario4) = 2"
proof -
  have all: "\<forall>a \<in> set (assets scenario4). sha1 a \<noteq> None"
    by (simp add: scenario4_def Asset_def)
  have pairs: "duplicate_pairs (assets scenario4) =
     [(Asset\<lparr>name := Some ''a'', artifact := Some ''com.x:a:1.0'', sha1 := Some ''ccc''\<rparr>,
       Asset\<lparr>name := Some ''b'', artifact := Some ''com.x:b:1.0'', sha1 := Some ''ccc''\<rparr>)]"
    by (simp add: duplicate_pairs_def scenario4_def Asset_def)
  from duplicate_shas_both_orders [of scenario4] all
  have "mset (assets_with_duplicate_shas scenario4) =
        mset (map (\<lambda>(a, b). report a b) (duplicate_pairs (assets scenario4))) +
        mset (map (\<lambda>(a, b). report b a) (duplicate_pairs (assets scenario4))) \<and>
      snd (print_validation_summary scenario4) = 2 * length (duplicate_pairs (assets scenario4))"
    by blast
  then have "mset (assets_with_duplicate_shas scenario4) =
     {#(Some ''a'', Some ''b'', Some ''ccc''), (Some ''b'', Some ''a'', Some ''ccc'')#} \<and>
     snd (print_validation_summary scenario4) = 2"
    unfolding pairs by (simp add: report_def Asset_def)
  moreover have "map sha1 (assets scenario4) = [Some ''ccc'', Some ''ccc'']"
    by (simp add: scenario4_def Asset_def)
  ultimately show ?thesis
    using pairs by simp
qed
subsection \<open>parse\_property\<close>

lemma split_from_char:
  "split_from [d] cur s =
     (cur @ takeWhile (\<lambda>c. c \<noteq> d) s) #
     (if d \<in> set s then split_from [d] [] (tl (dropWhile (\<lambda>c. c \<noteq> d) s)) else [])"
  by (induction s arbitrary: cur) auto

lemma replace_from_char_empty: "replace_from [d] [] s = filter (\<lambda>c. c \<noteq> d) s"
  by (induction s) auto

lemma str_replace_char_empty: "str_replace s [d] [] = filter (\<lambda>c. c \<noteq> d) s"
  by (simp add: str_replace_def replace_from_char_empty)

lemma split_char_0: "py_index (split_from [d] [] s) 0 = Inr (takeWhile (\<lambda>c. c \<noteq> d) s)"
  by (subst split_from_char) (simp add: py_index_def)

lemma split_char_1:
  "py_index (split_from [d] [] s) (Suc 0) =
     (if d \<in> set s then Inr (takeWhile (\<lambda>c. c \<noteq> d) (tl (dropWhile (\<lambda>c. c \<noteq> d) s)))
      else Inl IndexError)"
proof (cases "d \<in> set s")
  case True
  define t where "t = tl (dropWhile (\<lambda>c. c \<noteq> d) s)"
  have a: "split_from [d] [] s = takeWhile (\<lambda>c. c \<noteq> d) s # split_from [d] [] t"
    using split_from_char [of d "[]" s] True by (simp add: t_def)
  obtain rest where b: "split_from [d] [] t = takeWhile (\<lambda>c. c \<noteq> d) t # rest"
    using split_from_char [of d "[]" t] by simp
  show ?thesis
    using True by (simp add: a b py_index_def t_def [symmetric])
next
  case False
  have "split_from [d] [] s = [takeWhile (\<lambda>c. c \<noteq> d) s]"
    using split_from_char [of d "[]" s] False by simp
  then show ?thesis
    using False by (simp add: py_index_def)
qed

lemma parse_property_char:
  "parse_property s [d] =
     (if d \<in> set s
      then Inr (str_strip (filter (\<lambda>c. c \<noteq> CHR ''#'') (takeWhile (\<lambda>c. c \<noteq> d) s)),
                filter (\<lambda>c. c \<noteq> CHR '','')
                  (filter (\<lambda>c. c \<noteq> CHR 0x22)
                    (str_strip (takeWhile (\<lambda>c. c \<noteq> CHR ''#'')
                       (takeWhile (\<lambda>c. c \<noteq> d) (tl (dropWhile (\<lambda>c. c \<noteq> d) s)))))))
      else Inl IndexError)"
  by (simp add: parse_property_def str_split_def split_char_0 split_char_1 str_replace_char_empty Let_def)


lemma str_strip_no_surrounding_space:
  "str_strip s = [] \<or> (\<not> is_space (hd (str_strip s)) \<and> \<not> is_space (last (str_strip s)))"
proof (cases "str_strip s = []")
  case True
  then show ?thesis by simp
next
  case False
  define ys where "ys = dropWhile is_space s"
  define zs where "zs = dropWhile is_space (rev ys)"
  have strip: "str_strip s = rev zs"
    by (simp add: str_strip_def ys_def zs_def)
  have zs_ne: "zs \<noteq> []"
    using False strip by simp
  have last_ok: "\<not> is_space (last (str_strip s))"
    using zs_ne hd_dropWhile [of is_space "rev ys"] by (simp add: strip last_rev zs_def)
  have "zs = drop (length (takeWhile is_space (rev ys))) (rev ys)"
    unfolding zs_def by (rule dropWhile_eq_drop)
  then have take: "rev zs = take (length ys - length (takeWhile is_space (rev ys))) ys"
    by (simp add: rev_drop)
  have ys_ne: "ys \<noteq> []"
    using zs_ne by (auto simp: zs_def)
  have "hd (rev zs) = hd ys"
    using take zs_ne by (metis hd_take rev_is_Nil_conv take_eq_Nil neq0_conv)
  moreover have "\<not> is_space (hd ys)"
    using ys_ne hd_dropWhile [of is_space s] by (simp add: ys_def)
  ultimately show ?thesis
    using last_ok by (simp add: strip)
qed

text \<open>
  C9. For a line whose body contains the one-character delimiter \<open>d\<close> (not \<open>#\<close>), with
  or without a comment marker \<open>#\<close> between the indentation and the body,
  \<open>parse_property\<close> returns the same pair: the key is the text before the first
  delimiter with every \<open>#\<close> deleted and then stripped of surrounding whitespace; the
  value is the text between the first and the second delimiter, cut before its first
  \<open>#\<close>, stripped of surrounding whitespace, and then with every double quote and comma
  deleted. The key holds no \<open>#\<close> and no surrounding whitespace, and the value holds no
  \<open>#\<close>, double quote or comma.
\<close>

theorem parse_property_commented:
  assumes "d \<noteq> CHR ''#''" and "d \<notin> set indent" and "d \<in> set body"
  shows "\<exists>key val.
           parse_property (indent @ ''#'' @ body) [d] = Inr (key, val) \<and>
           parse_property (indent @ body) [d] = Inr (key, val) \<and>
           key = str_strip (filter (\<lambda>c. c \<noteq> CHR ''#'') (takeWhile (\<lambda>c. c \<noteq> d) (indent @ body))) \<and>
           val = filter (\<lambda>c. c \<noteq> CHR '','') (filter (\<lambda>c. c \<noteq> CHR 0x22)
                   (str_strip (takeWhile (\<lambda>c. c \<noteq> CHR ''#'')
                      (takeWhile (\<lambda>c. c \<noteq> d) (tl (dropWhile (\<lambda>c. c \<noteq> d) body)))))) \<and>
           CHR ''#'' \<notin> set key \<and>
           (key = [] \<or> (\<not> is_space (hd key) \<and> \<not> is_space (last key))) \<and>
           CHR ''#'' \<notin> set val \<and> CHR 0x22 \<notin> set val \<and> CHR '','' \<notin> set val"
proof -
  define key where "key = str_strip (filter (\<lambda>c. c \<noteq> CHR ''#'') (takeWhile (\<lambda>c. c \<noteq> d) (indent @ body)))"
  define raw where "raw = takeWhile (\<lambda>c. c \<noteq> CHR ''#'')
                      (takeWhile (\<lambda>c. c \<noteq> d) (tl (dropWhile (\<lambda>c. c \<noteq> d) body)))"
  define val where "val = filter (\<lambda>c. c \<noteq> CHR '','') (filter (\<lambda>c. c \<noteq> CHR 0x22) (str_strip raw))"
  have tw: "takeWhile (\<lambda>c. c \<noteq> d) (indent @ x) = indent @ takeWhile (\<lambda>c. c \<noteq> d) x" for x
    by (rule takeWhile_append2) (use assms(2) in auto)
  have dw: "dropWhile (\<lambda>c. c \<noteq> d) (indent @ x) = dropWhile (\<lambda>c. c \<noteq> d) x" for x
    by (rule dropWhile_append2) (use assms(2) in auto)
  have plain: "parse_property (indent @ body) [d] = Inr (key, val)"
    using assms(3) by (simp add: parse_property_char key_def val_def raw_def dw)
  have commented: "parse_property (indent @ ''#'' @ body) [d] = Inr (key, val)"
    using assms(1,3) by (simp add: parse_property_char key_def val_def raw_def dw tw)
  have k1: "CHR ''#'' \<notin> set key"
  proof -
    have "set key \<subseteq> set (filter (\<lambda>c. c \<noteq> CHR ''#'') (takeWhile (\<lambda>c. c \<noteq> d) (indent @ body)))"
      unfolding key_def str_strip_def by (auto dest!: set_dropWhileD)
    then show ?thesis by auto
  qed
  have k2: "key = [] \<or> (\<not> is_space (hd key) \<and> \<not> is_space (last key))"
    unfolding key_def by (rule str_strip_no_surrounding_space)
  have "set (str_strip raw) \<subseteq> set raw"
    unfolding str_strip_def by (auto dest!: set_dropWhileD)
  moreover have "CHR ''#'' \<notin> set raw"
    unfolding raw_def by (auto dest: set_takeWhileD)
  ultimately have v1: "CHR ''#'' \<notin> set val"
    by (auto simp: val_def)
  have v2: "CHR 0x22 \<notin> set val" "CHR '','' \<notin> set val"
    by (auto simp: val_def)
  show ?thesis
    using plain commented k1 k2 v1 v2 by (simp add: key_def val_def raw_def)
qed

theorem parse_property_commented_witness:
  "parse_property (''    #sha1 = '' @ [CHR 0x22] @ ''bbb'' @ [CHR 0x22] @ '', # stale'') ''='' = Inr (''sha1'', ''bbb'') \<and>
   parse_property (''    sha1 = '' @ [CHR 0x22] @ ''bbb'' @ [CHR 0x22] @ '', # stale'') ''='' = Inr (''sha1'', ''bbb'')"
  using parse_property_commented [of "CHR ''=''" "''    ''" "''sha1 = '' @ [CHR 0x22] @ ''bbb'' @ [CHR 0x22] @ '', # stale''"]
  by (simp add: str_strip_def is_space_def)

subsection \<open>Substring replacement\<close>

lemma set_replace_from: "set (replace_from old new s) \<subseteq> set s \<union> set new"
proof (induction old new s rule: replace_from.induct)
  case (1 old new)
  then show ?case by simp
next
  case (2 old new c cs)
  have "set (drop (length old - 1) cs) \<subseteq> set cs"
    by (rule set_drop_subset)
  with 2 show ?case by (auto split: if_splits)
qed

lemma replace_from_absent: "\<not> sublist old s \<Longrightarrow> replace_from old new s = s"
proof (induction s)
  case Nil
  then show ?case by simp
next
  case (Cons c cs)
  then have "\<not> prefix old (c # cs)" "\<not> sublist old cs"
    by (auto simp: sublist_Cons_right)
  with Cons.IH show ?case by simp
qed

lemma str_replace_absent: "\<not> sublist old s \<Longrightarrow> str_replace s old new = s"
  by (cases "old = []") (simp_all add: str_replace_def replace_from_absent)

lemma prefix_replace_from:
  "new \<noteq> [] \<Longrightarrow> hd new \<notin> set p \<Longrightarrow> prefix p (replace_from old new s) \<Longrightarrow> prefix p s"
proof (induction old new s arbitrary: p rule: replace_from.induct)
  case (1 old new)
  then show ?case by simp
next
  case (2 old new c cs)
  show ?case
  proof (cases "prefix old (c # cs)")
    case True
    with 2(5) have pre: "prefix p (new @ replace_from old new (drop (length old - 1) cs))"
      by simp
    show ?thesis
    proof (cases p)
      case Nil
      then show ?thesis by simp
    next
      case (Cons a p')
      with pre 2(3) have "a = hd new"
        by (cases new) auto
      with 2(4) Cons show ?thesis by simp
    qed
  next
    case False
    with 2(5) have pre: "prefix p (c # replace_from old new cs)"
      by simp
    show ?thesis
    proof (cases p)
      case Nil
      then show ?thesis by simp
    next
      case (Cons a p')
      with pre have "a = c" "prefix p' (replace_from old new cs)"
        by auto
      moreover have "hd new \<notin> set p'"
        using 2(4) Cons by simp
      ultimately have "prefix p' cs"
        using 2(2) [OF False 2(3)] by blast
      with \<open>a = c\<close> Cons show ?thesis by simp
    qed
  qed
qed

lemma sublist_skip_block:
  "p \<noteq> [] \<Longrightarrow> hd p \<notin> set v \<Longrightarrow> sublist p (v @ r) \<Longrightarrow> sublist p r"
proof (induction v)
  case Nil
  then show ?case by simp
next
  case (Cons a v)
  from Cons.prems(3) have "prefix p (a # v @ r) \<or> sublist p (v @ r)"
    by (simp add: sublist_Cons_right)
  moreover have "\<not> prefix p (a # v @ r)"
    using Cons.prems(1,2) by (cases p) auto
  ultimately show ?case
    using Cons by simp
qed

lemma sublist_replace_from:
  "new \<noteq> [] \<Longrightarrow> p \<noteq> [] \<Longrightarrow> hd new \<notin> set p \<Longrightarrow> hd p \<notin> set new \<Longrightarrow>
   sublist p (replace_from old new s) \<Longrightarrow> sublist p s"
proof (induction old new s rule: replace_from.induct)
  case (1 old new)
  then show ?case by simp
next
  case (2 old new c cs)
  show ?case
  proof (cases "prefix old (c # cs)")
    case True
    with 2(7) have "sublist p (new @ replace_from old new (drop (length old - 1) cs))"
      by simp
    then have "sublist p (replace_from old new (drop (length old - 1) cs))"
      using 2(4,6) by (rule sublist_skip_block [rotated 2])
    then have "sublist p (drop (length old - 1) cs)"
      using 2(1) [OF True 2(3,4,5,6)] by blast
    then have "sublist p cs"
      using sublist_drop [of "length old - 1" cs] by (rule sublist_order.order.trans)
    then show ?thesis
      by (simp add: sublist_Cons_right)
  next
    case False
    with 2(7) have "sublist p (c # replace_from old new cs)"
      by simp
    then consider "prefix p (c # replace_from old new cs)" | "sublist p (replace_from old new cs)"
      by (auto simp: sublist_Cons_right)
    then show ?thesis
    proof cases
      case 1
      then have "prefix p (replace_from old new (c # cs))"
        using False by simp
      then have "prefix p (c # cs)"
        using 2(3,5) by (rule prefix_replace_from [rotated 2])
      then show ?thesis by (rule prefix_imp_sublist)
    next
      case 2
      then have "sublist p cs"
        using \<open>\<not> prefix old (c # cs)\<close> "2.IH"(2) "2.prems"(1,2,3,4) by blast
      then show ?thesis by (simp add: sublist_Cons_right)
    qed
  qed
qed

lemma replace_from_removes:
  "old \<noteq> [] \<Longrightarrow> new \<noteq> [] \<Longrightarrow> hd new \<notin> set old \<Longrightarrow> hd old \<notin> set new \<Longrightarrow>
   \<not> sublist old (replace_from old new s)"
proof (induction old new s rule: replace_from.induct)
  case (1 old new)
  then show ?case by simp
next
  case (2 old new c cs)
  show ?case
  proof (cases "prefix old (c # cs)")
    case True
    have "\<not> sublist old (replace_from old new (drop (length old - 1) cs))"
      using "2.IH"(1) [OF True "2.prems"] .
    then have "\<not> sublist old (new @ replace_from old new (drop (length old - 1) cs))"
      using sublist_skip_block [OF "2.prems"(1,4)] by blast
    then show ?thesis using True by simp
  next
    case False
    have ih: "\<not> sublist old (replace_from old new cs)"
      using "2.IH"(2) [OF False "2.prems"] .
    have "\<not> prefix old (replace_from old new (c # cs))"
      using prefix_replace_from [OF "2.prems"(2,3)] False by blast
    then show ?thesis
      using ih False by (simp add: sublist_Cons_right)
  qed
qed

subsection \<open>The environment pass\<close>

lemma update_fresh: "k \<notin> fst ` set al \<Longrightarrow> AList.update k v al = al @ [(k, v)]"
  by (induction al) auto

lemma alist_eqI:
  "distinct (map fst xs) \<Longrightarrow> map fst xs = map fst ys \<Longrightarrow> map_of xs = map_of ys \<Longrightarrow> xs = ys"
proof (induction xs arbitrary: ys)
  case Nil
  then show ?case by simp
next
  case (Cons x xs)
  then obtain y ys' where ys: "ys = y # ys'"
    by (cases ys) auto
  obtain k v where x: "x = (k, v)" by (cases x)
  obtain k' v' where y: "y = (k', v')" by (cases y)
  from Cons.prems(2) ys x y have k: "k' = k" and keys: "map fst xs = map fst ys'"
    by simp_all
  from Cons.prems(3) have "map_of (x # xs) k = map_of ys k"
    by (rule fun_cong)
  then have v: "v' = v"
    by (simp add: ys x y k)
  have notin: "k \<notin> fst ` set xs" "k \<notin> fst ` set ys'"
    using Cons.prems(1) keys x by (auto simp flip: set_map)
  have "map_of xs = map_of ys'"
  proof
    fix z
    show "map_of xs z = map_of ys' z"
    proof (cases "z = k")
      case True
      have "map_of xs k = None" "map_of ys' k = None"
        using notin by (simp_all add: map_of_eq_None_iff)
      with True show ?thesis by simp
    next
      case False
      have "map_of (x # xs) z = map_of ys z"
        using Cons.prems(3) by (rule fun_cong)
      with False show ?thesis
        by (simp add: ys x y k v)
    qed
  qed
  then have "xs = ys'"
    using Cons.IH Cons.prems(1) keys by simp
  then show ?case
    by (simp add: ys x y k v)
qed

lemma map_of_rev_distinct: "distinct (map fst xs) \<Longrightarrow> map_of (rev xs) = map_of xs"
proof (induction xs)
  case Nil
  then show ?case by simp
next
  case (Cons x xs)
  obtain k v where x: "x = (k, v)" by (cases x)
  have "k \<notin> fst ` set xs"
    using Cons.prems x by (auto simp flip: set_map)
  then have none: "map_of xs k = None"
    by (simp add: map_of_eq_None_iff)
  have ih: "map_of (rev xs) = map_of xs"
    using Cons by simp
  show ?case
  proof
    fix z
    show "map_of (rev (x # xs)) z = map_of (x # xs) z"
      using none by (cases "z = k") (simp_all add: x ih map_add_def split: option.splits)
  qed
qed

lemma fold_update_keys:
  "\<forall>k \<in> fst ` set ups. k \<in> fst ` set al \<Longrightarrow>
   map fst (fold (\<lambda>(k, v) al. AList.update k v al) ups al) = map fst al"
proof (induction ups arbitrary: al)
  case Nil
  then show ?case by simp
next
  case (Cons u ups)
  obtain k v where u: "u = (k, v)" by (cases u)
  have in_al: "k \<in> fst ` set al"
    using Cons.prems u by simp
  then have keys: "map fst (AList.update k v al) = map fst al"
    by (simp add: update_keys)
  then have "\<forall>k' \<in> fst ` set ups. k' \<in> fst ` set (AList.update k v al)"
    using Cons.prems by (simp add: dom_update) 
  then have "map fst (fold (\<lambda>(k, v) al. AList.update k v al) ups (AList.update k v al)) = map fst al"
    using Cons.IH keys by metis
  then show ?case by (simp add: u)
qed

lemma fold_update_map_of:
  "map_of (fold (\<lambda>(k, v) al. AList.update k v al) ups al) = map_of al ++ map_of (rev ups)"
proof (induction ups arbitrary: al)
  case Nil
  then show ?case by simp
next
  case (Cons u ups)
  obtain k v where u: "u = (k, v)" by (cases u)
  show ?case
    by (simp add: u Cons.IH update_conv' fun_eq_iff map_add_def split: option.splits)
qed

lemma fold_update_self_map:
  assumes "distinct (map fst al)"
  shows "fold (\<lambda>(k, v) al. AList.update k v al) (map (\<lambda>(k, v). (k, g k v)) al) al =
         map (\<lambda>(k, v). (k, g k v)) al"
proof -
  define ups where "ups = map (\<lambda>(k, v). (k, g k v)) al"
  have keys_ups: "map fst ups = map fst al"
    by (simp add: ups_def case_prod_unfold comp_def)
  have d_ups: "distinct (map fst ups)"
    using assms keys_ups by simp
  have keys: "map fst (fold (\<lambda>(k, v) al. AList.update k v al) ups al) = map fst ups"
    using fold_update_keys [of ups al] keys_ups by (metis set_map)
  have "map_of (fold (\<lambda>(k, v) al. AList.update k v al) ups al) = map_of al ++ map_of (rev ups)"
    by (rule fold_update_map_of)
  also have "map_of (rev ups) = map_of ups"
    using d_ups by (rule map_of_rev_distinct)
  also have "map_of al ++ map_of ups = map_of ups"
  proof
    fix z
    show "(map_of al ++ map_of ups) z = map_of ups z"
    proof (cases "map_of ups z")
      case None
      then have "z \<notin> fst ` set ups" by (simp add: map_of_eq_None_iff)
      then have "z \<notin> fst ` set al" using keys_ups by (metis set_map)
      then have "map_of al z = None" by (simp add: map_of_eq_None_iff)
      with None show ?thesis by (simp add: map_add_def)
    next
      case (Some w)
      then show ?thesis by (simp add: map_add_def)
    qed
  qed
  finally have maps: "map_of (fold (\<lambda>(k, v) al. AList.update k v al) ups al) = map_of ups" .
  have "distinct (map fst (fold (\<lambda>(k, v) al. AList.update k v al) ups al))"
    using keys d_ups by simp
  then show ?thesis
    unfolding ups_def [symmetric] using keys maps by (rule alist_eqI)
qed


lemma fold_update_fresh:
  "distinct (map fst (acc @ xs)) \<Longrightarrow>
   fold (\<lambda>(k, v) al. AList.update k (g k v) al) xs acc = acc @ map (\<lambda>(k, v). (k, g k v)) xs"
proof (induction xs arbitrary: acc)
  case Nil
  then show ?case by simp
next
  case (Cons x xs)
  obtain k v where x: "x = (k, v)" by (cases x)
  have "k \<notin> fst ` set acc"
    using Cons.prems x by auto
  then have upd: "AList.update k (g k v) acc = acc @ [(k, g k v)]"
    by (rule update_fresh)
  have "distinct (map fst ((acc @ [(k, g k v)]) @ xs))"
    using Cons.prems x by simp
  then have "fold (\<lambda>(k, v) al. AList.update k (g k v) al) xs (acc @ [(k, g k v)]) =
             (acc @ [(k, g k v)]) @ map (\<lambda>(k, v). (k, g k v)) xs"
    by (rule Cons.IH)
  then show ?case by (simp add: x upd)
qed

lemma resolve_env_map:
  assumes "distinct (map fst vars)"
  shows "resolve_env vars = map (\<lambda>(k, v). (k, resolved_value vars v)) vars"
proof -
  have step: "(\<lambda>(k, v) updates.
                    (case map_of known_repos v of
                          Some r \<Rightarrow> AList.update k r (AList.update k (resolve_value vars v) updates)
                        | None \<Rightarrow> AList.update k (resolve_value vars v) updates)) =
              (\<lambda>(k, v) al. AList.update k (resolved_value vars v) al)"
    by (auto simp: fun_eq_iff resolved_value_def split: option.splits)
  have "fold (\<lambda>(k, v) al. AList.update k (resolved_value vars v) al) vars [] =
        [] @ map (\<lambda>(k, v). (k, resolved_value vars v)) vars"
    by (rule fold_update_fresh) (use assms in simp)
  then have updates: "fold (\<lambda>(k, v) al. AList.update k (resolved_value vars v) al) vars [] =
        map (\<lambda>(k, v). (k, resolved_value vars v)) vars"
    by simp
  show ?thesis
    unfolding resolve_env_def step Let_def updates
    using assms by (rule fold_update_self_map)
qed

lemma resolve_env_keys: "distinct (map fst vars) \<Longrightarrow> map fst (resolve_env vars) = map fst vars"
  by (simp add: resolve_env_map case_prod_unfold comp_def)

subsection \<open>Resolving a resolved environment\<close>

lemma fold_replace_absent:
  "\<forall>l \<in> fst ` set xs. \<not> sublist l v \<Longrightarrow> fold (\<lambda>(l, m) s. str_replace s l m) xs v = v"
  by (induction xs) (auto simp: str_replace_absent)

text \<open>
  C5, as stated, fails: for the variables \<open>_BASE = "1.0"\<close>, \<open>_MID = _BASE\<close>,
  \<open>_VER = _MID\<close> the environment pass leaves \<open>_VER\<close> bound to \<open>_BASE\<close>, and a second
  pass changes that binding to \<open>1.0\<close>.
\<close>

theorem resolve_env_not_idempotent:
  "resolve_env chain_env = [(''_BASE'', ''1.0''), (''_MID'', ''1.0''), (''_VER'', ''_BASE'')] \<and>
   resolve_env (resolve_env chain_env) = [(''_BASE'', ''1.0''), (''_MID'', ''1.0''), (''_VER'', ''1.0'')] \<and>
   resolve_env (resolve_env chain_env) \<noteq> resolve_env chain_env"
proof -
  have 1: "resolve_env chain_env = [(''_BASE'', ''1.0''), (''_MID'', ''1.0''), (''_VER'', ''_BASE'')]"
    by (simp add: resolve_env_def resolve_value_def chain_env_def str_replace_def known_repos_def)
  have 2: "resolve_env [(''_BASE'', ''1.0''), (''_MID'', ''1.0''), (''_VER'', ''_BASE'')] =
           [(''_BASE'', ''1.0''), (''_MID'', ''1.0''), (''_VER'', ''1.0'')]"
    by (simp add: resolve_env_def resolve_value_def str_replace_def known_repos_def)
  show ?thesis
    unfolding 1 2 by simp
qed

text \<open>
  The pass leaves an environment as it is when no value holds the token \<open>' + '\<close>, holds
  a declared name, or is a key of \<open>known_repos\<close>.
\<close>

lemma resolve_env_fixed:
  assumes "distinct (map fst vars)"
    and "\<forall>v \<in> snd ` set (resolve_env vars).
           \<not> sublist '' + '' v \<and> (\<forall>l \<in> fst ` set vars. \<not> sublist l v) \<and>
           map_of known_repos v = None"
  shows "resolve_env (resolve_env vars) = resolve_env vars"
proof -
  define E where "E = resolve_env vars"
  have keys: "map fst E = map fst vars"
    unfolding E_def using assms(1) by (rule resolve_env_keys)
  then have d: "distinct (map fst E)"
    using assms(1) by simp
  have names: "fst ` set E = fst ` set vars"
    using keys by (metis set_map)
  have same: "resolved_value E v = v" if "v \<in> snd ` set E" for v
  proof -
    from that assms(2) have a: "\<not> sublist '' + '' v" and b: "\<forall>l \<in> fst ` set E. \<not> sublist l v"
      and c: "map_of known_repos v = None"
      by (auto simp: E_def [symmetric] names)
    have "resolve_value E v = fold (\<lambda>(l, m) s. str_replace s l m) E v"
      using a by (simp add: resolve_value_def str_replace_absent)
    also have "\<dots> = v"
      using b by (rule fold_replace_absent)
    finally show ?thesis
      using c by (simp add: resolved_value_def)
  qed
  have "resolve_env E = map (\<lambda>(k, v). (k, resolved_value E v)) E"
    using d by (rule resolve_env_map)
  also have "\<dots> = map (\<lambda>(k, v). (k, v)) E"
    by (rule map_cong) (auto simp: same rev_image_eqI)
  finally show ?thesis
    by (simp add: E_def)
qed

text \<open>
  The substitution loop on an environment of depth one. \<open>D\<close> holds the names that are
  known to be absent from the value; a binding whose name is not among them has a
  literal value. The loop leaves a value without any declared name and without \<open>+\<close>,
  and a value it has changed holds the first character of a literal.
\<close>

lemma replaced_head:
  "sublist old s \<Longrightarrow> old \<noteq> [] \<Longrightarrow> new \<noteq> [] \<Longrightarrow> hd new \<in> set (replace_from old new s)"
proof (induction s)
  case Nil
  then show ?case by simp
next
  case (Cons c cs)
  show ?case
  proof (cases "prefix old (c # cs)")
    case True
    with Cons.prems(3) show ?thesis by simp
  next
    case False
    with Cons.prems(1) have "sublist old cs"
      by (simp add: sublist_Cons_right)
    with Cons.IH Cons.prems(2,3) False show ?thesis
      by simp
  qed
qed

lemma fold_replace_depth_one:
  assumes "\<forall>(l, m) \<in> set xs. l \<in> N \<and>
             (l \<in> D \<or> (m \<noteq> [] \<and> CHR ''+'' \<notin> set m \<and> hd m \<in> M \<and>
                        (\<forall>p \<in> N. hd m \<notin> set p \<and> hd p \<notin> set m)))"
    and "\<forall>p \<in> N. p \<noteq> []"
    and "\<forall>p \<in> D. p \<in> N \<and> \<not> sublist p s"
    and "CHR ''+'' \<notin> set s"
  shows "(\<forall>p \<in> D \<union> fst ` set xs. \<not> sublist p (fold (\<lambda>(l, m) s. str_replace s l m) xs s)) \<and>
         CHR ''+'' \<notin> set (fold (\<lambda>(l, m) s. str_replace s l m) xs s) \<and>
         (fold (\<lambda>(l, m) s. str_replace s l m) xs s = s \<or>
          (\<exists>c \<in> M. c \<in> set (fold (\<lambda>(l, m) s. str_replace s l m) xs s)))"
  using assms
proof (induction xs arbitrary: s D)
  case Nil
  then show ?case by simp
next
  case (Cons x xs)
  let ?F = "\<lambda>(l, m) s. str_replace s l m"
  obtain l m where x: "x = (l, m)" by (cases x)
  have lN: "l \<in> N"
    using Cons.prems(1) x by auto
  then have l: "l \<noteq> []"
    using Cons.prems(2) by blast
  have tail: "\<forall>(l, m) \<in> set xs. l \<in> N \<and>
             (l \<in> D' \<or> (m \<noteq> [] \<and> CHR ''+'' \<notin> set m \<and> hd m \<in> M \<and>
                        (\<forall>p \<in> N. hd m \<notin> set p \<and> hd p \<notin> set m)))" if "D \<subseteq> D'" for D'
    using Cons.prems(1) that by fastforce
  show ?case
  proof (cases "l \<in> D")
    case True
    then have "\<not> sublist l s"
      using Cons.prems(3) by blast
    then have same: "str_replace s l m = s"
      by (rule str_replace_absent)
    from Cons.IH [OF tail [OF subset_refl] Cons.prems(2,3,4)] True show ?thesis
      by (simp add: x same)
  next
    case False
    with Cons.prems(1) x have m: "m \<noteq> []" and mplus: "CHR ''+'' \<notin> set m" and mark: "hd m \<in> M"
      and sep: "\<forall>p \<in> N. hd m \<notin> set p \<and> hd p \<notin> set m"
      by auto
    define s' where "s' = replace_from l m s"
    have step: "str_replace s l m = s'"
      using l by (simp add: str_replace_def s'_def)
    have gone: "\<not> sublist l s'"
      unfolding s'_def using l m sep lN by (intro replace_from_removes) auto
    have kept: "\<not> sublist p s'" if "p \<in> D" for p
    proof
      assume "sublist p s'"
      moreover have "p \<in> N" "\<not> sublist p s"
        using that Cons.prems(3) by auto
      moreover have "p \<noteq> []" "hd m \<notin> set p" "hd p \<notin> set m"
        using \<open>p \<in> N\<close> Cons.prems(2) sep by auto
      ultimately show False
        using sublist_replace_from [of m p l s] m by (simp add: s'_def)
    qed
    have absent: "\<forall>p \<in> insert l D. p \<in> N \<and> \<not> sublist p s'"
      using gone kept lN Cons.prems(3) by auto
    have plus: "CHR ''+'' \<notin> set s'"
      using set_replace_from [of l m s] Cons.prems(4) mplus by (auto simp: s'_def)
    have ih: "(\<forall>p \<in> insert l D \<union> fst ` set xs. \<not> sublist p (fold ?F xs s')) \<and>
         CHR ''+'' \<notin> set (fold ?F xs s') \<and>
         (fold ?F xs s' = s' \<or> (\<exists>c \<in> M. c \<in> set (fold ?F xs s')))"
      by (rule Cons.IH [OF tail Cons.prems(2) absent plus]) auto
    have marked: "fold ?F xs s' = s \<or> (\<exists>c \<in> M. c \<in> set (fold ?F xs s'))"
    proof (cases "sublist l s")
      case True
      then have "hd m \<in> set s'"
        unfolding s'_def using l m by (rule replaced_head)
      with ih mark show ?thesis
        by auto
    next
      case False
      then have "s' = s"
        by (simp add: s'_def replace_from_absent)
      with ih show ?thesis
        by auto
    qed
    from ih marked show ?thesis
      by (simp add: x step)
  qed
qed

lemma known_repos_prefixes:
  "\<forall>(a, r) \<in> set known_repos. CHR ''+'' \<notin> set r \<and> map_of known_repos r = None"
  by (simp add: known_repos_def)

text \<open>What the pass leaves as the value of a binding of an environment of depth one.\<close>

lemma depth_one_binding:
  assumes "depth_one vars" and "(k, v) \<in> set vars"
  shows "k \<noteq> []" and "\<forall>(a, r) \<in> set known_repos. \<not> sublist k r"
    and "CHR ''+'' \<notin> set (str_replace v '' + '' [])"
    and "map_of known_repos (str_replace v '' + '' []) = None \<or> map_of known_repos v \<noteq> None"
    and "literal_value vars v \<or> \<not> referenced vars k"
proof -
  define P where "P = (\<lambda>(k, v).
          k \<noteq> [] \<and> list_all (\<lambda>(a, r). \<not> sublist k r) known_repos \<and>
          CHR ''+'' \<notin> set (str_replace v '' + '' []) \<and>
          (map_of known_repos (str_replace v '' + '' []) = None \<or> map_of known_repos v \<noteq> None) \<and>
          (literal_value vars v \<or> \<not> referenced vars k))"
  have "list_all P vars"
    using assms(1) unfolding depth_one_def P_def by (rule conjunct2)
  then have "P (k, v)"
    using assms(2) unfolding list_all_iff by (rule bspec)
  then have all: "k \<noteq> [] \<and> list_all (\<lambda>(a, r). \<not> sublist k r) known_repos \<and>
          CHR ''+'' \<notin> set (str_replace v '' + '' []) \<and>
          (map_of known_repos (str_replace v '' + '' []) = None \<or> map_of known_repos v \<noteq> None) \<and>
          (literal_value vars v \<or> \<not> referenced vars k)"
    by (simp add: P_def)
  from all show "k \<noteq> []" by (rule conjunct1)
  from all have "list_all (\<lambda>(a, r). \<not> sublist k r) known_repos" by blast
  then show "\<forall>(a, r) \<in> set known_repos. \<not> sublist k r"
    by (simp only: list_all_iff)
  from all show "CHR ''+'' \<notin> set (str_replace v '' + '' [])" by blast
  from all show "map_of known_repos (str_replace v '' + '' []) = None \<or> map_of known_repos v \<noteq> None"
    by blast
  from all show "literal_value vars v \<or> \<not> referenced vars k" by blast
qed

lemma literal_value_iff:
  "literal_value vars m \<longleftrightarrow>
     m \<noteq> [] \<and> CHR ''+'' \<notin> set m \<and>
     (\<forall>p \<in> fst ` set vars. hd m \<notin> set p \<and> hd p \<notin> set m) \<and>
     (\<forall>a \<in> fst ` set known_repos. hd m \<notin> set a)"
  unfolding literal_value_def list_all_iff by force

lemma referenced_iff:
  "referenced vars k \<longleftrightarrow> (\<exists>u \<in> snd ` set vars. sublist k (str_replace u '' + '' []))"
  unfolding referenced_def list_ex_iff by (simp add: case_prod_unfold)

lemma resolved_value_depth_one:
  assumes "depth_one vars" and "(k, v) \<in> set vars"
  shows "CHR ''+'' \<notin> set (resolved_value vars v) \<and>
         (\<forall>l \<in> fst ` set vars. \<not> sublist l (resolved_value vars v)) \<and>
         map_of known_repos (resolved_value vars v) = None"
proof (cases "map_of known_repos v")
  case (Some r)
  then have mem: "(v, r) \<in> set known_repos"
    by (rule map_of_SomeD)
  have w: "resolved_value vars v = r"
    by (simp add: resolved_value_def Some)
  have "\<not> sublist l r" if "l \<in> fst ` set vars" for l
  proof -
    from that obtain u where "(l, u) \<in> set vars"
      by auto
    from depth_one_binding(2) [OF assms(1) this] mem show ?thesis
      by blast
  qed
  moreover have "CHR ''+'' \<notin> set r \<and> map_of known_repos r = None"
    using known_repos_prefixes mem by blast
  ultimately show ?thesis
    unfolding w by blast
next
  case None
  define N where "N = fst ` set vars"
  define D where "D = {l \<in> N. \<not> referenced vars l}"
  define M where "M = {c. \<forall>a \<in> fst ` set known_repos. c \<notin> set a}"
  define s where "s = str_replace v '' + '' []"
  let ?F = "\<lambda>(l, m) s. str_replace s l m"
  have w: "resolved_value vars v = fold ?F vars s"
    by (simp add: resolved_value_def None resolve_value_def s_def)
  have bind: "\<forall>(l, m) \<in> set vars. l \<in> N \<and>
             (l \<in> D \<or> (m \<noteq> [] \<and> CHR ''+'' \<notin> set m \<and> hd m \<in> M \<and>
                        (\<forall>p \<in> N. hd m \<notin> set p \<and> hd p \<notin> set m)))"
  proof (clarify, rule conjI)
    fix l m
    assume lm: "(l, m) \<in> set vars"
    then show lN: "l \<in> N"
      unfolding N_def by (rule image_eqI [rotated]) simp
    show "l \<in> D \<or> (m \<noteq> [] \<and> CHR ''+'' \<notin> set m \<and> hd m \<in> M \<and>
                        (\<forall>p \<in> N. hd m \<notin> set p \<and> hd p \<notin> set m))"
    proof (cases "literal_value vars m")
      case True
      then have "m \<noteq> [] \<and> CHR ''+'' \<notin> set m \<and> hd m \<in> M \<and>
                        (\<forall>p \<in> N. hd m \<notin> set p \<and> hd p \<notin> set m)"
        unfolding literal_value_iff M_def N_def by blast
      then show ?thesis ..
    next
      case False
      with depth_one_binding(5) [OF assms(1) lm] have "\<not> referenced vars l"
        by blast
      with lN have "l \<in> D"
        by (simp add: D_def)
      then show ?thesis ..
    qed
  qed
  have ne: "\<forall>p \<in> N. p \<noteq> []"
  proof
    fix p
    assume "p \<in> N"
    then obtain u where "(p, u) \<in> set vars"
      by (auto simp: N_def)
    then show "p \<noteq> []"
      by (rule depth_one_binding(1) [OF assms(1)])
  qed
  have absent: "\<forall>p \<in> D. p \<in> N \<and> \<not> sublist p s"
  proof
    fix p
    assume "p \<in> D"
    then have "p \<in> N" and "\<not> referenced vars p"
      by (simp_all add: D_def)
    moreover have "v \<in> snd ` set vars"
      using assms(2) by (rule image_eqI [rotated]) simp
    ultimately show "p \<in> N \<and> \<not> sublist p s"
      unfolding referenced_iff s_def by blast
  qed
  have plus: "CHR ''+'' \<notin> set s"
    unfolding s_def by (rule depth_one_binding(3) [OF assms])
  note loop = fold_replace_depth_one [OF bind ne absent plus]
  have names: "\<forall>l \<in> N. \<not> sublist l (fold ?F vars s)"
  proof
    fix l
    assume "l \<in> N"
    then have "l \<in> D \<union> fst ` set vars"
      by (simp add: N_def)
    with loop show "\<not> sublist l (fold ?F vars s)"
      by blast
  qed
  have not_key: "map_of known_repos (fold ?F vars s) = None"
  proof (rule ccontr)
    assume "map_of known_repos (fold ?F vars s) \<noteq> None"
    then obtain r where r: "map_of known_repos (fold ?F vars s) = Some r"
      by blast
    have key: "fold ?F vars s \<in> fst ` set known_repos"
      using map_of_SomeD [OF r] by force
    from loop consider "fold ?F vars s = s" | c where "c \<in> M" "c \<in> set (fold ?F vars s)"
      by blast
    then show False
    proof cases
      case 1
      with r have "map_of known_repos (str_replace v '' + '' []) \<noteq> None"
        by (simp add: s_def)
      with depth_one_binding(4) [OF assms] None show False
        by simp
    next
      case 2
      with key show False
        unfolding M_def by blast
    qed
  qed
  from loop have "CHR ''+'' \<notin> set (fold ?F vars s)"
    by blast
  with names not_key show ?thesis
    unfolding w N_def by blast
qed

text \<open>
  C5, amended. For an environment of depth one (\<open>depth_one\<close>: what a value refers to is
  a literal), the environment pass applied to the resolved environment leaves every
  binding unchanged.
\<close>

theorem resolve_env_idempotent_depth_one:
  assumes "depth_one vars"
  shows "resolve_env (resolve_env vars) = resolve_env vars"
proof -
  have d: "distinct (map fst vars)"
    using assms unfolding depth_one_def by (rule conjunct1)
  have E: "resolve_env vars = map (\<lambda>(k, v). (k, resolved_value vars v)) vars"
    using d by (rule resolve_env_map)
  have fixed: "\<not> sublist '' + '' w \<and> (\<forall>l \<in> fst ` set vars. \<not> sublist l w) \<and>
      map_of known_repos w = None"
    if mem: "w \<in> snd ` set (resolve_env vars)" for w
  proof -
    from mem obtain x where x: "x \<in> set (map (\<lambda>(k, v). (k, resolved_value vars v)) vars)"
      and wx: "w = snd x"
      unfolding E by (rule imageE)
    from x obtain y where y: "y \<in> set vars" and xy: "x = (\<lambda>(k, v). (k, resolved_value vars v)) y"
      unfolding set_map by (rule imageE)
    obtain k v where kv: "y = (k, v)"
      by (cases y)
    have w: "w = resolved_value vars v"
      by (simp add: wx xy kv)
    have bound: "(k, v) \<in> set vars"
      using y by (simp only: kv)
    note r = resolved_value_depth_one [OF assms bound]
    from r have no_plus: "CHR ''+'' \<notin> set (resolved_value vars v)"
      by (rule conjunct1)
    from r have rest: "(\<forall>l \<in> fst ` set vars. \<not> sublist l (resolved_value vars v)) \<and>
         map_of known_repos (resolved_value vars v) = None"
      by (rule conjunct2)
    have "\<not> sublist '' + '' (resolved_value vars v)"
    proof
      assume "sublist '' + '' (resolved_value vars v)"
      then have "set '' + '' \<subseteq> set (resolved_value vars v)"
        by (rule set_mono_sublist)
      moreover have "CHR ''+'' \<in> set '' + ''"
        by simp
      ultimately have "CHR ''+'' \<in> set (resolved_value vars v)"
        by (rule subsetD)
      with no_plus show False
        by (rule notE)
    qed
    with rest show ?thesis
      unfolding w by (rule conjI [rotated])
  qed
  have "\<forall>v \<in> snd ` set (resolve_env vars).
           \<not> sublist '' + '' v \<and> (\<forall>l \<in> fst ` set vars. \<not> sublist l v) \<and>
           map_of known_repos v = None"
    by (rule ballI) (rule fixed)
  with d show ?thesis
    by (rule resolve_env_fixed)
qed

theorem resolve_env_idempotent_depth_one_witness:
  "depth_one flat_env \<and>
   resolve_env flat_env = [(''_VERS'', ''1.2.3''), (''_LIB_VERS'', ''lib-1.2.3''), (''REPO'', ''GERRIT:'')] \<and>
   resolve_env (resolve_env flat_env) = resolve_env flat_env"
proof -
  have 1: "resolve_env flat_env = [(''_VERS'', ''1.2.3''), (''_LIB_VERS'', ''lib-1.2.3''), (''REPO'', ''GERRIT:'')]"
    by (simp add: resolve_env_def resolve_value_def flat_env_def str_replace_def known_repos_def)
  have 2: "depth_one flat_env"
    by (simp add: depth_one_def literal_value_def referenced_def flat_env_def known_repos_def
        str_replace_def sublist_Cons_right)
  have 3: "resolve_env (resolve_env flat_env) = resolve_env flat_env"
    using 2 by (rule resolve_env_idempotent_depth_one)
  from 2 1 3 show ?thesis
    by (intro conjI)
qed
subsection \<open>Variables in the fields of a record\<close>

lemma fold_substitute_artifact:
  "artifact (fold substitute_asset vars a) = fold substitute_artifact vars (artifact a)"
proof (induction vars arbitrary: a)
  case Nil
  then show ?case by simp
next
  case (Cons kv vars)
  have "artifact (substitute_asset kv a) = substitute_artifact kv (artifact a)"
    by (cases kv) (simp add: substitute_asset_def substitute_artifact_def Let_def split: option.splits)
  then show ?case by (simp add: Cons.IH)
qed

lemma fold_substitute_repository:
  "repository (fold substitute_asset vars a) = fold substitute_repository vars (repository a)"
proof (induction vars arbitrary: a)
  case Nil
  then show ?case by simp
next
  case (Cons kv vars)
  have "repository (substitute_asset kv a) = substitute_repository kv (repository a)"
    by (cases kv) (simp add: substitute_asset_def substitute_repository_def Let_def split: option.splits)
  then show ?case by (simp add: Cons.IH)
qed

lemma fold_replace_no_name:
  assumes "\<forall>(k, v) \<in> set xs. k \<in> N \<and> v \<noteq> [] \<and> (\<forall>p \<in> N. hd v \<notin> set p \<and> hd p \<notin> set v)"
    and "\<forall>p \<in> N. p \<noteq> []"
    and "\<forall>p \<in> D. p \<in> N \<and> \<not> sublist p s"
  shows "\<forall>p \<in> D \<union> fst ` set xs. \<not> sublist p (fold (\<lambda>(k, v) s. replace_from k v s) xs s)"
  using assms
proof (induction xs arbitrary: s D)
  case Nil
  then show ?case by simp
next
  case (Cons x xs)
  obtain k v where x: "x = (k, v)" by (cases x)
  have kN: "k \<in> N" and v: "v \<noteq> []" and sep: "\<forall>p \<in> N. hd v \<notin> set p \<and> hd p \<notin> set v"
    using Cons.prems(1) x by auto
  have k: "k \<noteq> []"
    using kN Cons.prems(2) by blast
  define s' where "s' = replace_from k v s"
  have gone: "\<not> sublist k s'"
    unfolding s'_def using k v sep kN by (intro replace_from_removes) auto
  have kept: "\<not> sublist p s'" if "p \<in> D" for p
  proof
    assume "sublist p s'"
    moreover have "p \<in> N" "\<not> sublist p s"
      using that Cons.prems(3) by auto
    moreover have "p \<noteq> []" "hd v \<notin> set p" "hd p \<notin> set v"
      using \<open>p \<in> N\<close> Cons.prems(2) sep by auto
    ultimately show False
      using sublist_replace_from [of v p k s] v by (simp add: s'_def)
  qed
  have "\<forall>p \<in> insert k D. p \<in> N \<and> \<not> sublist p s'"
    using gone kept kN Cons.prems(3) by auto
  moreover have "\<forall>(k, v) \<in> set xs. k \<in> N \<and> v \<noteq> [] \<and> (\<forall>p \<in> N. hd v \<notin> set p \<and> hd p \<notin> set v)"
    using Cons.prems(1) by simp
  ultimately have "\<forall>p \<in> insert k D \<union> fst ` set xs.
      \<not> sublist p (fold (\<lambda>(k, v) s. replace_from k v s) xs s')"
    using Cons.IH Cons.prems(2) by blast
  then show ?case
    by (simp add: x s'_def)
qed

lemma fold_replace_plus_free:
  "CHR ''+'' \<notin> set s \<Longrightarrow> \<forall>(k, v) \<in> set xs. CHR ''+'' \<notin> set v \<Longrightarrow>
   CHR ''+'' \<notin> set (fold (\<lambda>(k, v) s. replace_from k v s) xs s)"
proof (induction xs arbitrary: s)
  case Nil
  then show ?case by simp
next
  case (Cons x xs)
  obtain k v where x: "x = (k, v)" by (cases x)
  have "CHR ''+'' \<notin> set (replace_from k v s)"
    using set_replace_from [of k v s] Cons.prems x by auto
  then show ?case
    using Cons x by simp
qed

lemma plus_token_absent: "CHR ''+'' \<notin> set s \<Longrightarrow> str_replace s '' + '' new = s"
proof (rule str_replace_absent)
  assume "CHR ''+'' \<notin> set s"
  show "\<not> sublist '' + '' s"
  proof
    assume "sublist '' + '' s"
    then have "set '' + '' \<subseteq> set s" by (rule set_mono_sublist)
    with \<open>CHR ''+'' \<notin> set s\<close> show False by simp
  qed
qed

lemma str_replace_nonempty: "old \<noteq> [] \<Longrightarrow> str_replace s old new = replace_from old new s"
  by (simp add: str_replace_def)

lemma fold_substitute_artifact_plus_free:
  "CHR ''+'' \<notin> set s \<Longrightarrow> \<forall>(k, v) \<in> set xs. k \<noteq> [] \<and> CHR ''+'' \<notin> set v \<Longrightarrow>
   fold substitute_artifact xs (Some s) = Some (fold (\<lambda>(k, v) s. replace_from k v s) xs s)"
proof (induction xs arbitrary: s)
  case Nil
  then show ?case by simp
next
  case (Cons x xs)
  obtain k v where x: "x = (k, v)" by (cases x)
  have k: "k \<noteq> []" and v: "CHR ''+'' \<notin> set v"
    using Cons.prems(2) x by auto
  have "str_replace (str_replace s '' + '' []) k v = replace_from k v s"
    using k by (simp add: plus_token_absent [OF Cons.prems(1)] str_replace_nonempty)
  then have step: "substitute_artifact x (Some s) = Some (replace_from k v s)"
    by (cases "s = []") (simp_all add: substitute_artifact_def x)
  have "CHR ''+'' \<notin> set (replace_from k v s)"
    using set_replace_from [of k v s] Cons.prems(1) v by auto
  then have "fold substitute_artifact xs (Some (replace_from k v s)) =
             Some (fold (\<lambda>(k, v) s. replace_from k v s) xs (replace_from k v s))"
    using Cons.IH Cons.prems(2) by simp
  then show ?case
    using step by (simp add: x)
qed

lemma fold_substitute_repository_replace:
  "\<forall>(k, v) \<in> set xs. k \<noteq> [] \<Longrightarrow>
   fold substitute_repository xs (Some s) = Some (fold (\<lambda>(k, v) s. replace_from k v s) xs s)"
proof (induction xs arbitrary: s)
  case Nil
  then show ?case by simp
next
  case (Cons x xs)
  obtain k v where x: "x = (k, v)" by (cases x)
  have k: "k \<noteq> []"
    using Cons.prems x by auto
  have step: "substitute_repository x (Some s) = Some (replace_from k v s)"
    using k by (cases "s = []") (simp_all add: substitute_repository_def x str_replace_nonempty)
  have "fold substitute_repository xs (Some (replace_from k v s)) =
        Some (fold (\<lambda>(k, v) s. replace_from k v s) xs (replace_from k v s))"
    using Cons.IH Cons.prems by simp
  then show ?case
    using step by (simp add: x)
qed


lemma separated_iff:
  "separated vars \<longleftrightarrow>
     (\<forall>(k, v) \<in> set vars. k \<noteq> [] \<and> v \<noteq> [] \<and>
        (\<forall>(l, m) \<in> set vars. hd v \<notin> set l \<and> hd l \<notin> set v))"
  by (simp add: separated_def list_all_iff)

lemma fold_substitute_artifact_None: "fold substitute_artifact vars None = None"
  by (induction vars) (simp_all add: substitute_artifact_def)

lemma fold_substitute_repository_None: "fold substitute_repository vars None = None"
  by (induction vars) (simp_all add: substitute_repository_def)

lemma separated_names:
  assumes "separated vars"
  shows "\<forall>(k, v) \<in> set vars. k \<in> fst ` set vars \<and> v \<noteq> [] \<and>
           (\<forall>p \<in> fst ` set vars. hd v \<notin> set p \<and> hd p \<notin> set v)"
    and "\<forall>p \<in> fst ` set vars. p \<noteq> []"
  using assms unfolding separated_iff by (force+)

lemma artifact_no_name:
  assumes "separated vars" and "plus_free vars x" and "p \<in> fst ` set vars"
  shows "\<not> mentions (fold substitute_artifact vars x) p"
proof (cases x)
  case None
  then show ?thesis
    by (simp add: fold_substitute_artifact_None mentions_def)
next
  case (Some s)
  define s0 where "s0 = str_replace s '' + '' []"
  have plus_s0: "CHR ''+'' \<notin> set s0"
    using assms(2) Some by (simp add: plus_free_def s0_def)
  have plus_vals: "\<forall>(k, v) \<in> set vars. CHR ''+'' \<notin> set v"
    using assms(2) by (simp add: plus_free_def list_all_iff)
  have names: "\<forall>p \<in> fst ` set vars. p \<noteq> []"
    using separated_names(2) [OF assms(1)] .
  have ne: "\<forall>(k, v) \<in> set vars. k \<noteq> [] \<and> CHR ''+'' \<notin> set v"
    using names plus_vals by force
  have first: "fold substitute_artifact vars (Some s) = fold substitute_artifact vars (Some s0)"
  proof (cases vars)
    case Nil
    with assms(3) show ?thesis by simp
  next
    case (Cons kv rest)
    have "str_replace s0 '' + '' [] = s0"
      using plus_s0 by (rule plus_token_absent)
    moreover have "s = [] \<Longrightarrow> s0 = []"
      by (simp add: s0_def str_replace_def)
    moreover have "s0 = [] \<Longrightarrow> str_replace s0 (fst kv) (snd kv) = []"
      using ne Cons by (cases kv) (simp add: str_replace_nonempty)
    ultimately have "substitute_artifact kv (Some s) = substitute_artifact kv (Some s0)"
      by (auto simp: substitute_artifact_def s0_def [symmetric])
    then show ?thesis
      by (simp add: Cons)
  qed
  have "fold substitute_artifact vars (Some s0) =
        Some (fold (\<lambda>(k, v) s. replace_from k v s) vars s0)"
    using plus_s0 ne by (rule fold_substitute_artifact_plus_free)
  moreover have "\<forall>q \<in> {} \<union> fst ` set vars.
      \<not> sublist q (fold (\<lambda>(k, v) s. replace_from k v s) vars s0)"
    by (rule fold_replace_no_name [OF separated_names(1) [OF assms(1)] names]) simp
  ultimately show ?thesis
    using assms(3) by (auto simp: Some first mentions_def)
qed

lemma repository_no_name:
  assumes "separated vars" and "p \<in> fst ` set vars"
  shows "\<not> mentions (fold substitute_repository vars x) p"
proof (cases x)
  case None
  then show ?thesis
    by (simp add: fold_substitute_repository_None mentions_def)
next
  case (Some r)
  have names: "\<forall>p \<in> fst ` set vars. p \<noteq> []"
    using separated_names(2) [OF assms(1)] .
  then have "\<forall>(k, v) \<in> set vars. k \<noteq> []"
    by force
  then have "fold substitute_repository vars (Some r) =
        Some (fold (\<lambda>(k, v) s. replace_from k v s) vars r)"
    by (rule fold_substitute_repository_replace)
  moreover have "\<forall>q \<in> {} \<union> fst ` set vars.
      \<not> sublist q (fold (\<lambda>(k, v) s. replace_from k v s) vars r)"
    by (rule fold_replace_no_name [OF separated_names(1) [OF assms(1)] names]) simp
  ultimately show ?thesis
    using assms(2) by (auto simp: Some mentions_def)
qed

lemma resolve_asset_no_name:
  assumes "separated vars" and "p \<in> fst ` set vars"
  shows "plus_free vars (artifact a) \<Longrightarrow> \<not> mentions (artifact (resolve_asset vars a)) p"
    and "\<forall>c \<in> snd ` set known_repos. \<not> sublist p c \<Longrightarrow> \<not> mentions (repository (resolve_asset vars a)) p"
proof -
  have art: "artifact (resolve_asset vars a) = fold substitute_artifact vars (artifact a)"
    by (simp add: resolve_asset_def Let_def fold_substitute_artifact [symmetric] split: option.splits)
  show "\<not> mentions (artifact (resolve_asset vars a)) p" if "plus_free vars (artifact a)"
    unfolding art using assms(1) that assms(2) by (rule artifact_no_name)
  have plain: "\<not> mentions (fold substitute_repository vars (repository a)) p"
    using assms by (rule repository_no_name)
  show "\<not> mentions (repository (resolve_asset vars a)) p"
    if "\<forall>c \<in> snd ` set known_repos. \<not> sublist p c"
  proof (cases "repository (fold substitute_asset vars a)")
    case None
    then show ?thesis
      by (simp add: resolve_asset_def mentions_def)
  next
    case (Some r)
    show ?thesis
    proof (cases "map_of known_repos r")
      case None
      then show ?thesis
        using plain Some by (simp add: resolve_asset_def fold_substitute_repository)
    next
      case (Some c)
      then have "c \<in> snd ` set known_repos"
        by (metis map_of_SomeD image_eqI snd_conv)
      with that have "\<not> sublist p c" by blast
      then show ?thesis
        using Some \<open>repository (fold substitute_asset vars a) = Some r\<close>
        by (simp add: resolve_asset_def mentions_def)
    qed
  qed
qed

subsection \<open>The fields of a record after the post-pass\<close>

text \<open>Scanning raises nothing: a line that matches the assignment pattern holds a \<open>=\<close>.\<close>

lemma match_assignment_has_delim: "match_assignment line \<Longrightarrow> CHR ''='' \<in> set line"
proof (rule ccontr)
  assume m: "match_assignment line" and "CHR ''='' \<notin> set line"
  then have "dropWhile (\<lambda>c. c \<noteq> CHR ''='') line = []"
    by auto
  with m show False
    by (simp add: match_assignment_def)
qed

lemma scan_line_total: "\<exists>st'. scan_line raw st = Inr st'"
proof -
  obtain cur collected vars where st: "st = (cur, collected, vars)"
    using prod_cases3 by blast
  show ?thesis
  proof (cases "match_assignment (str_strip raw)")
    case True
    then have "CHR ''='' \<in> set (str_strip raw)"
      by (rule match_assignment_has_delim)
    then obtain k v where "parse_property (str_strip raw) ''='' = Inr (k, v)"
      by (simp add: parse_property_char)
    then show ?thesis
      using True by (simp add: scan_line_def st Let_def split: option.splits)
  next
    case False
    then show ?thesis
      by (simp add: scan_line_def st Let_def)
  qed
qed

lemma scan_lines_total: "\<exists>st'. scan_lines file_in st = Inr st'"
proof (induction file_in arbitrary: st)
  case Nil
  show ?case by (rule exI [of _ st]) simp
next
  case (Cons raw rest)
  obtain st1 where "scan_line raw st = Inr st1"
    using scan_line_total by blast
  then show ?case
    using Cons.IH [of st1] by simp
qed

lemma assets_from_bazel_file_total: "\<exists>g. assets_from_bazel_file filename file_in = Inr g"
proof -
  obtain cur collected vars where "scan_lines file_in (None, [], []) = Inr (cur, collected, vars)"
    using scan_lines_total [of file_in "(None, [], [])"] by (metis prod_cases3)
  then show ?thesis
    by (simp add: assets_from_bazel_file_def Let_def)
qed

text \<open>
  C4, as stated, fails: with \<open>_BASE = "1.0"\<close>, \<open>_MID = _BASE\<close>, \<open>_VER = _MID\<close> declared in
  this order and a record with \<open>artifact = "com.x:lib:" + _VER\<close>, the post-pass leaves
  the artifact \<open>com.x:lib:_BASE\<close>, which holds the name of the declared variable
  \<open>_BASE\<close>.
\<close>

theorem unresolved_chain_counterexample:
  "assets_from_bazel_file ''WORKSPACE'' chain_file =
     Inr \<lparr>source_type = ''FILE'', source = ''WORKSPACE'',
          assets = [\<lparr>name = Some ''lib'', artifact = Some ''com.x:lib:_BASE'', repository = None,
                     sha1 = Some ''aaa'', src_sha1 = None, old_version = None\<rparr>],
          env = Some [(''_BASE'', ''1.0''), (''_MID'', ''1.0''), (''_VER'', ''_BASE'')]\<rparr> \<and>
   mentions (Some ''com.x:lib:_BASE'') ''_BASE''"
  by (simp add: assets_from_bazel_file_def chain_file_def scan_line_def str_strip_def is_space_def
      match_maven_jar_def match_close_def match_assignment_def parse_property_def str_split_def
      py_index_def str_replace_def asset_setitem_def Asset_def AssetGroup_def resolve_env_def
      resolve_value_def resolve_asset_def substitute_asset_def known_repos_def mentions_def
      sublist_Cons_right Let_def)


text \<open>
  C4, amended. Let the resolved environment of the file be separated: no name and no
  value is empty, the first character of each value occurs in no declared name, and
  the first character of each declared name occurs in no value. Then after the
  post-pass of \<open>assets_from_bazel_file\<close>, for every record and every declared name:
  the artifact does not hold the name, provided no value holds a \<open>+\<close> and the scanned
  artifact holds no \<open>+\<close> outside its \<open>' + '\<close> tokens; and the repository does not hold the
  name, provided the name occurs in no repository prefix of \<open>known_repos\<close>.
\<close>

theorem resolved_fields_hold_no_name:
  assumes "scan_lines file_in (None, [], []) = Inr (current_asset, collected, vars)"
    and "assets_from_bazel_file filename file_in = Inr g"
    and "env g = Some E" and "separated E" and "p \<in> fst ` set E" and "i < length collected"
  shows "length (assets g) = length collected \<and>
         (plus_free E (artifact (collected ! i)) \<longrightarrow> \<not> mentions (artifact (assets g ! i)) p) \<and>
         ((\<forall>c \<in> snd ` set known_repos. \<not> sublist p c) \<longrightarrow>
            \<not> mentions (repository (assets g ! i)) p)"
proof -
  have g: "g = (AssetGroup ''FILE'' filename)
                 \<lparr>assets := map (resolve_asset (resolve_env vars)) collected,
                  env := Some (resolve_env vars)\<rparr>"
    using assms(1,2) by (simp add: assets_from_bazel_file_def Let_def)
  then have E: "E = resolve_env vars"
    using assms(3) by simp
  have at: "assets g ! i = resolve_asset E (collected ! i)"
    using assms(6) by (simp add: g E)
  have len: "length (assets g) = length collected"
    by (simp add: g)
  show ?thesis
    unfolding at using len resolve_asset_no_name [OF assms(4,5)] by blast
qed

theorem resolved_fields_hold_no_name_witness:
  "assets_from_bazel_file ''WORKSPACE'' scenario1_file =
     Inr \<lparr>source_type = ''FILE'', source = ''WORKSPACE'',
          assets = [\<lparr>name = Some ''lib'', artifact = Some ''com.x:lib:1.2.3'',
                     repository = Some ''MAVEN_CENTRAL:'', sha1 = Some ''aaa'',
                     src_sha1 = None, old_version = None\<rparr>],
          env = Some [(''VERSION'', ''1.2.3'')]\<rparr> \<and>
   \<not> mentions (Some ''com.x:lib:1.2.3'') ''VERSION'' \<and>
   \<not> mentions (Some ''MAVEN_CENTRAL:'') ''VERSION''"
proof -
  define raw where "raw = \<lparr>name = Some ''lib'', artifact = Some ''com.x:lib: + VERSION'',
                     repository = Some ''MAVEN_CENTRAL'', sha1 = Some ''aaa'',
                     src_sha1 = None, old_version = None\<rparr>"
  define g where "g = \<lparr>source_type = ''FILE'', source = ''WORKSPACE'',
          assets = [\<lparr>name = Some ''lib'', artifact = Some ''com.x:lib:1.2.3'',
                     repository = Some ''MAVEN_CENTRAL:'', sha1 = Some ''aaa'',
                     src_sha1 = None, old_version = None\<rparr>],
          env = Some [(''VERSION'', ''1.2.3'')]\<rparr>"
  have scan: "scan_lines scenario1_file (None, [], []) = Inr (None, [raw], [(''VERSION'', ''1.2.3'')])"
    by (simp add: scenario1_file_def scan_line_def str_strip_def is_space_def raw_def
      match_maven_jar_def match_close_def match_assignment_def parse_property_def str_split_def
      py_index_def str_replace_def asset_setitem_def Asset_def Let_def)
  have parsed: "assets_from_bazel_file ''WORKSPACE'' scenario1_file = Inr g"
    by (simp add: assets_from_bazel_file_def scan raw_def g_def AssetGroup_def resolve_env_def
      resolve_value_def resolve_asset_def substitute_asset_def known_repos_def str_replace_def Let_def)
  have e: "env g = Some [(''VERSION'', ''1.2.3'')]"
    by (simp add: g_def)
  have sep: "separated [(''VERSION'', ''1.2.3'')]"
    by (simp add: separated_def)
  have p: "''VERSION'' \<in> fst ` set [(''VERSION'', ''1.2.3'')]"
    by simp
  have i: "0 < length [raw]"
    by simp
  have pf: "plus_free [(''VERSION'', ''1.2.3'')] (artifact ([raw] ! 0))"
    by (simp add: plus_free_def raw_def str_replace_def)
  have kr: "\<forall>c \<in> snd ` set known_repos. \<not> sublist ''VERSION'' c"
    by (simp add: known_repos_def sublist_Cons_right)
  show ?thesis
    using resolved_fields_hold_no_name [OF scan parsed e sep p i] pf kr parsed
    by (simp add: g_def)
qed

subsection \<open>Rewriting with an empty replacement set\<close>

lemma scenario1_parsed: "assets_from_bazel_file ''WORKSPACE'' scenario1_file = Inr scenario1_group"
  by (simp add: assets_from_bazel_file_def scenario1_file_def scan_line_def str_strip_def is_space_def
      match_maven_jar_def match_close_def match_assignment_def parse_property_def str_split_def
      py_index_def str_replace_def asset_setitem_def Asset_def AssetGroup_def resolve_env_def
      resolve_value_def resolve_asset_def substitute_asset_def known_repos_def scenario1_group_def Let_def)

text \<open>
  C7. If the group parsed from a file and a reference group have an empty replacement
  set, \<open>replace_shas_in_file\<close> returns without running \<open>sed\<close>: the file system, and so the
  file with its lines, is what it was, whatever \<open>sed\<close> would have done.
\<close>

theorem empty_replacement_set_leaves_file:
  assumes "assets_from_bazel_file filename file_in = Inr groupA"
    and "make_replacement_set groupA groupB = Inr []"
    and "fs filename = Some file_in"
  shows "\<exists>fs'. replace_shas_in_file sed groupA groupB enable_shas fs = Inr fs' \<and>
               fs' filename = Some file_in \<and> fs' = fs"
  using assms by (simp add: replace_shas_in_file_def)

theorem empty_replacement_set_leaves_file_witness:
  "make_replacement_set scenario1_group (scenario1_group\<lparr>source_type := ''REPO''\<rparr>) = Inr [] \<and>
   replace_shas_in_file (\<lambda>cmd fs. Map.empty) scenario1_group
       (scenario1_group\<lparr>source_type := ''REPO''\<rparr>) True
       [''WORKSPACE'' \<mapsto> scenario1_file] = Inr [''WORKSPACE'' \<mapsto> scenario1_file]"
proof -
  have empty: "make_replacement_set scenario1_group (scenario1_group\<lparr>source_type := ''REPO''\<rparr>) = Inr []"
    by (simp add: make_replacement_set_def scenario1_group_def)
  have there: "[''WORKSPACE'' \<mapsto> scenario1_file] ''WORKSPACE'' = Some scenario1_file"
    by simp
  show ?thesis
    using empty_replacement_set_leaves_file
        [where fs = "[''WORKSPACE'' \<mapsto> scenario1_file]" and sed = "\<lambda>cmd fs. Map.empty"
           and enable_shas = True, OF scenario1_parsed empty there] empty
    by auto
qed

subsection \<open>asset\_from\_repo\<close>




text \<open>
  A line \<open>received\<close> with nothing after its space gives the loop an empty digest, which
  \<open>if new_sha\<close> takes for none.
\<close>

lemma empty_digest_not_found:
  "lookup_sha (CalledProcessError (Str (''received '' @ [CHR 0x0A]))) = Inr (Some []) \<and>
   found_digest (CalledProcessError (Str (''received '' @ [CHR 0x0A]))) = None"
  by (simp add: lookup_sha_def found_digest_def str_split_def py_index_def second_word_def)

lemma asset_from_repo_value_store:
  "asset < length h \<Longrightarrow>
   asset_from_repo run tmp h asset repo_name =
     (case asset_from_repo_value run tmp (h ! asset) repo_name of
        Inl e \<Rightarrow> Inl e
      | Inr a \<Rightarrow> Inr (h @ [a], length h))"
  by (simp add: asset_from_repo_def asset_from_repo_value_def Let_def asset_copy_eq
      split: sum.splits)



subsection \<open>process\_assets\<close>

lemma asset_from_repo_value_fields:
  assumes "asset_from_repo_value run tmp a repo_name = Inr n"
  shows "n\<lparr>sha1 := sha1 a\<rparr> = a"
  using assms
  by (auto simp: asset_from_repo_value_def Let_def asset_copy_eq split: sum.splits if_splits)

text \<open>
  The body of the loop of \<open>process_assets\<close>, for an asset whose artifact splits at \<open>:\<close>
  into a group, an artifact id, a version and possibly more, and whose key (artifact
  id and \<open>.version\<close> for \<open>org.eclipse.jgit\<close>, else group, \<open>.\<close>, artifact id and \<open>.version\<close>) is
  in the table. When the version equals the table's, it stores the asset under its
  name in \<open>skipped_assets\<close>. Otherwise it looks up the digest of the asset with the
  coordinate \<open>group:artifact:tableVersion\<close> and \<open>old_version\<close> set to the previous version,
  and stores the record that the look-up returns in \<open>assets_to_update\<close>; when the look-up
  raises, so does the body.
\<close>

lemma process_asset_step:
  assumes "artifact asset = Some art"
    and "str_split art '':'' = Inr (group_id # artifact_id # version # rest)"
    and "property_key = (if artifact_id = jgit_artifact_id then artifact_id
                         else group_id @ ''.'' @ artifact_id) @ ''.version''"
    and "properties property_key = Some property_version"
    and "candidate = asset\<lparr>artifact := Some (group_id @ '':'' @ artifact_id @ '':'' @ property_version),
                          old_version := Some version\<rparr>"
  shows "(version = property_version \<longrightarrow>
            process_asset run tmp properties asset (assets_to_update, skipped_assets) =
              Inr (assets_to_update, skipped_assets(name asset \<mapsto> asset))) \<and>
         (version \<noteq> property_version \<longrightarrow>
            (case asset_from_repo_value run tmp candidate (repository asset) of
               Inl e \<Rightarrow>
                 process_asset run tmp properties asset (assets_to_update, skipped_assets) = Inl e
             | Inr new_asset \<Rightarrow>
                 process_asset run tmp properties asset (assets_to_update, skipped_assets) =
                   Inr (assets_to_update
                          ((if artifact_id = jgit_artifact_id then Some artifact_id else name asset)
                             \<mapsto> new_asset),
                        skipped_assets) \<and>
                 artifact new_asset = Some (group_id @ '':'' @ artifact_id @ '':'' @ property_version) \<and>
                 old_version new_asset = Some version \<and>
                 name new_asset = name asset \<and> repository new_asset = repository asset \<and>
                 src_sha1 new_asset = src_sha1 asset))"
proof -
  have idx: "py_index (group_id # artifact_id # version # rest) 0 = Inr group_id"
    "py_index (group_id # artifact_id # version # rest) 1 = Inr artifact_id"
    "py_index (group_id # artifact_id # version # rest) 2 = Inr version"
    by (simp_all add: py_index_def)
  have key: "properties ((if artifact_id = jgit_artifact_id then artifact_id
                         else group_id @ ''.'' @ artifact_id) @ ''.version'') = Some property_version"
    using assms(3,4) by simp
  have cand: "(asset_copy asset)\<lparr>artifact := Some (group_id @ '':'' @ artifact_id @ '':'' @ property_version),
                                  old_version := Some version\<rparr> = candidate"
    by (simp add: assms(5) asset_copy_eq)
  have skip: "process_asset run tmp properties asset (assets_to_update, skipped_assets) =
              Inr (assets_to_update, skipped_assets(name asset \<mapsto> asset))"
    if "version = property_version"
    using that key by (simp add: process_asset_def assms(1,2) py_index_def Let_def)
  have upd: "process_asset run tmp properties asset (assets_to_update, skipped_assets) =
        (case asset_from_repo_value run tmp candidate (repository asset) of
           Inl e \<Rightarrow> Inl e
         | Inr new_asset \<Rightarrow>
             Inr (assets_to_update
                    ((if artifact_id = jgit_artifact_id then Some artifact_id else name new_asset)
                       \<mapsto> new_asset),
                  skipped_assets))"
    if "version \<noteq> property_version"
    using that key unfolding assms(5)
    by (cases "artifact_id = jgit_artifact_id")
      (simp_all add: process_asset_def assms(1,2) py_index_def Let_def asset_copy_eq
         cong: sum.case_cong)
  have fields: "artifact n = artifact candidate \<and> old_version n = old_version candidate \<and>
                name n = name candidate \<and> repository n = repository candidate \<and>
                src_sha1 n = src_sha1 candidate"
    if "asset_from_repo_value run tmp candidate (repository asset) = Inr n" for n
  proof -
    have "n\<lparr>sha1 := sha1 candidate\<rparr> = candidate"
      using that by (rule asset_from_repo_value_fields)
    then have "artifact (n\<lparr>sha1 := sha1 candidate\<rparr>) = artifact candidate"
      "old_version (n\<lparr>sha1 := sha1 candidate\<rparr>) = old_version candidate"
      "name (n\<lparr>sha1 := sha1 candidate\<rparr>) = name candidate"
      "repository (n\<lparr>sha1 := sha1 candidate\<rparr>) = repository candidate"
      "src_sha1 (n\<lparr>sha1 := sha1 candidate\<rparr>) = src_sha1 candidate"
      by simp_all
    then show ?thesis by simp
  qed
  show ?thesis
  proof (intro conjI impI)
    assume "version = property_version"
    then show "process_asset run tmp properties asset (assets_to_update, skipped_assets) =
              Inr (assets_to_update, skipped_assets(name asset \<mapsto> asset))"
      by (rule skip)
  next
    assume ne: "version \<noteq> property_version"
    show "case asset_from_repo_value run tmp candidate (repository asset) of
               Inl e \<Rightarrow>
                 process_asset run tmp properties asset (assets_to_update, skipped_assets) = Inl e
             | Inr new_asset \<Rightarrow>
                 process_asset run tmp properties asset (assets_to_update, skipped_assets) =
                   Inr (assets_to_update
                          ((if artifact_id = jgit_artifact_id then Some artifact_id else name asset)
                             \<mapsto> new_asset),
                        skipped_assets) \<and>
                 artifact new_asset = Some (group_id @ '':'' @ artifact_id @ '':'' @ property_version) \<and>
                 old_version new_asset = Some version \<and>
                 name new_asset = name asset \<and> repository new_asset = repository asset \<and>
                 src_sha1 new_asset = src_sha1 asset"
    proof (cases "asset_from_repo_value run tmp candidate (repository asset)")
      case (Inl e)
      then show ?thesis
        using upd [OF ne] by simp
    next
      case (Inr n)
      then show ?thesis
        using upd [OF ne] fields [OF Inr] by (simp add: assms(5))
    qed
  qed
qed


text \<open>
  A command that fails gives \<open>asset_from_repo\<close> a \<open>bytes\<close> output, and the look-up
  raises; so does the body of the loop for every asset whose version differs from the
  table's, and with it \<open>process_assets\<close>.
\<close>

lemma failed_lookup_raises:
  assumes "\<forall>cmd. \<exists>b. run cmd = CalledProcessError (Bytes b)"
  shows "\<exists>e. asset_from_repo_value run tmp a repo_name = Inl e"
proof (cases "download_command tmp a repo_name")
  case (Inl e)
  then show ?thesis
    by (simp add: asset_from_repo_value_def)
next
  case (Inr cmd)
  from assms obtain b where "run cmd = CalledProcessError (Bytes b)"
    by blast
  with Inr show ?thesis
    by (simp add: asset_from_repo_value_def lookup_sha_def Let_def)
qed

lemma process_asset_update_raises:
  assumes "artifact asset = Some art"
    and "str_split art '':'' = Inr (group_id # artifact_id # version # rest)"
    and "properties ((if artifact_id = jgit_artifact_id then artifact_id
                      else group_id @ ''.'' @ artifact_id) @ ''.version'') = Some property_version"
    and "version \<noteq> property_version"
    and "\<forall>cmd. \<exists>b. run cmd = CalledProcessError (Bytes b)"
  shows "\<exists>e. process_asset run tmp properties asset dicts = Inl e"
proof -
  obtain assets_to_update skipped_assets where dicts: "dicts = (assets_to_update, skipped_assets)"
    by (cases dicts)
  define candidate where
    "candidate = asset\<lparr>artifact := Some (group_id @ '':'' @ artifact_id @ '':'' @ property_version),
                        old_version := Some version\<rparr>"
  obtain e where e: "asset_from_repo_value run tmp candidate (repository asset) = Inl e"
    using failed_lookup_raises [OF assms(5)] by blast
  from process_asset_step
      [where properties = properties and run = run and tmp = tmp
         and assets_to_update = assets_to_update and skipped_assets = skipped_assets
         and property_key = "(if artifact_id = jgit_artifact_id then artifact_id
                              else group_id @ ''.'' @ artifact_id) @ ''.version''",
       OF assms(1,2) refl assms(3) candidate_def] assms(4) e
  show ?thesis
    by (simp add: dicts)
qed

lemma fold_err_raises:
  assumes "x \<in> set xs" and "\<And>s. \<exists>e. f x s = Inl e"
  shows "\<exists>e. fold_err f xs s = Inl e"
  using assms(1)
proof (induction xs arbitrary: s)
  case Nil
  then show ?case by simp
next
  case (Cons y ys)
  show ?case
  proof (cases "f y s")
    case (Inl e)
    then show ?thesis by simp
  next
    case (Inr s')
    with assms(2) [of s] have "x \<noteq> y"
      by auto
    with Cons.prems have "x \<in> set ys"
      by simp
    from Cons.IH [OF this, of s'] Inr show ?thesis
      by simp
  qed
qed

lemma process_assets_update_raises:
  assumes "asset_group \<in> set build_file_assets" and "asset \<in> set (assets asset_group)"
    and "artifact asset = Some art"
    and "str_split art '':'' = Inr (group_id # artifact_id # version # rest)"
    and "properties ((if artifact_id = jgit_artifact_id then artifact_id
                      else group_id @ ''.'' @ artifact_id) @ ''.version'') = Some property_version"
    and "version \<noteq> property_version"
    and "\<forall>cmd. \<exists>b. run cmd = CalledProcessError (Bytes b)"
  shows "\<exists>e. process_assets run tmp properties build_file_assets check = Inl e"
proof -
  have "asset \<in> set (concat (map assets build_file_assets))"
    using assms(1,2) by auto
  then show ?thesis
    unfolding process_assets_def
    by (rule fold_err_raises)
      (rule process_asset_update_raises
         [where properties = properties and run = run, OF assms(3-7)])
qed

text \<open>
  C6. The code does not do what the claim says, and the claim is what the code is
  written to do. The record \<open>com.x:lib:1.2.3\<close> has its key \<open>com.x.lib.version\<close> in the
  table, with the version \<open>2.0.0\<close>; the download command fails, as \<open>asset_from_repo\<close>
  wants it to, and reports the digest \<open>bbb\<close>. The claim has the record classified for
  update, with the coordinate \<open>com.x:lib:2.0.0\<close> and \<open>old_version\<close> \<open>1.2.3\<close>;
  \<open>process_assets\<close> raises \<open>TypeError\<close> and classifies nothing, because \<open>asset_from_repo\<close>
  splits the \<open>bytes\<close> output of the command at a \<open>str\<close>. With the table version \<open>1.2.3\<close>
  the record is skipped, as the claim says.
\<close>

theorem process_assets_failed_lookup:
  "artifact lib_asset = Some ''com.x:lib:1.2.3'' \<and>
   str_split ''com.x:lib:1.2.3'' '':'' = Inr [''com.x'', ''lib'', ''1.2.3''] \<and>
   process_assets failed_download tmp_4242 [''com.x.lib.version'' \<mapsto> ''2.0.0'']
     [\<lparr>source_type = ''FILE'', source = ''WORKSPACE'', assets = [lib_asset], env = Some []\<rparr>] False =
     Inl TypeError \<and>
   process_assets failed_download tmp_4242 [''com.x.lib.version'' \<mapsto> ''1.2.3'']
     [\<lparr>source_type = ''FILE'', source = ''WORKSPACE'', assets = [lib_asset], env = Some []\<rparr>] False =
     Inr (Map.empty, [Some ''lib'' \<mapsto> lib_asset])"
  by (simp add: process_assets_def process_asset_def lib_asset_def str_split_def py_index_def
      jgit_artifact_id_def asset_copy_eq asset_from_repo_value_def download_command_def
      lookup_sha_def failed_download_def Let_def)
subsection \<open>update\_bazel\_file\<close>

lemma fold_err_append:
  "fold_err f (xs @ ys) s = (case fold_err f xs s of Inl e \<Rightarrow> Inl e | Inr s' \<Rightarrow> fold_err f ys s')"
  by (induction xs arbitrary: s) (auto split: sum.splits)

lemma patch_variable_cases:
  assumes "patch_variable new_asset v st = Inr st'"
  shows "st' = st \<or>
         (\<exists>line_num env_variable x. u_env_line st env_variable = Some line_num \<and>
            st' = st\<lparr>u_data := (u_data st)[line_num := x],
                      u_updated_assets := (u_updated_assets st)(name new_asset \<mapsto> new_asset)\<rparr>)"
proof -
  obtain ps where ps: "str_split v ''+'' = Inr ps"
    using assms by (cases "str_split v ''+''") (simp_all add: patch_variable_def)
  obtain p1 where p1: "py_index ps 1 = Inr p1"
    using assms ps by (cases "py_index ps 1") (simp_all add: patch_variable_def)
  obtain line_num where ln: "u_env_line st (str_strip p1) = Some line_num"
    using assms ps p1 by (cases "u_env_line st (str_strip p1)") (simp_all add: patch_variable_def Let_def)
  obtain na where na: "artifact new_asset = Some na"
    using assms ps p1 ln by (cases "artifact new_asset") (simp_all add: patch_variable_def Let_def)
  obtain vs where vs: "str_split na '':'' = Inr vs"
    using assms ps p1 ln na by (cases "str_split na '':''") (simp_all add: patch_variable_def Let_def)
  obtain version where ver: "py_index vs 2 = Inr version"
    using assms ps p1 ln na vs by (cases "py_index vs 2") (simp_all add: patch_variable_def Let_def)
  note known = ps p1 ln na vs ver
  show ?thesis
  proof (cases "line_num = 0")
    case True
    then show ?thesis
      using assms known by (simp add: patch_variable_def Let_def)
  next
    case False
    obtain declared where d: "u_env st (str_strip p1) = Some declared"
      using assms known False by (cases "u_env st (str_strip p1)") (simp_all add: patch_variable_def Let_def)
    show ?thesis
    proof (cases "declared = version")
      case True
      then show ?thesis
        using assms known False d by (simp add: patch_variable_def Let_def)
    next
      case ne: False
      obtain line where l: "py_index (u_data st) line_num = Inr line"
        using assms known False d ne
        by (cases "py_index (u_data st) line_num") (simp_all add: patch_variable_def Let_def)
      have "st' = st\<lparr>u_data := (u_data st)
                [line_num := replicate (length line - length (dropWhile (\<lambda>c. c = CHR '' '') line)) (CHR '' '') @
                             str_strip p1 @ '' = '' @ [CHR 0x22] @ version @ [CHR 0x22, CHR 0x0A]],
              u_updated_assets := (u_updated_assets st)(name new_asset \<mapsto> new_asset)\<rparr>"
        using assms known False d ne l by (simp add: patch_variable_def Let_def)
      then show ?thesis
        using ln by blast
    qed
  qed
qed

lemma patch_variable_frame:
  assumes "patch_variable new_asset v st = Inr st'"
  shows "u_env_line st' = u_env_line st \<and> length (u_data st') = length (u_data st) \<and>
         (\<forall>j. (\<forall>k. u_env_line st k \<noteq> Some j) \<longrightarrow> u_data st' ! j = u_data st ! j)"
proof -
  from patch_variable_cases [OF assms] show ?thesis
  proof
    assume "st' = st"
    then show ?thesis by simp
  next
    assume "\<exists>line_num env_variable x. u_env_line st env_variable = Some line_num \<and>
            st' = st\<lparr>u_data := (u_data st)[line_num := x],
                      u_updated_assets := (u_updated_assets st)(name new_asset \<mapsto> new_asset)\<rparr>"
    then obtain line_num env_variable x where ln: "u_env_line st env_variable = Some line_num"
      and st': "st' = st\<lparr>u_data := (u_data st)[line_num := x],
                      u_updated_assets := (u_updated_assets st)(name new_asset \<mapsto> new_asset)\<rparr>"
      by blast
    have "u_data st' ! j = u_data st ! j" if "\<forall>k. u_env_line st k \<noteq> Some j" for j
    proof -
      from that ln have "line_num \<noteq> j" by auto
      then show ?thesis by (simp add: st')
    qed
    then show ?thesis by (simp add: st')
  qed
qed

lemma update_asset_field_frame:
  assumes "update_asset_field other_attrs assets_to_update cnt original_line k v a st = Inr st'"
    and "original_line = u_data st ! cnt"
  shows "length (u_data st') = length (u_data st) \<and> u_env_line st' = u_env_line st \<and>
         (\<forall>j. j \<noteq> cnt \<longrightarrow> (\<forall>k. u_env_line st k \<noteq> Some j) \<longrightarrow> u_data st' ! j = u_data st ! j)"
proof -
  define st0 where "st0 = st\<lparr>u_current_asset := Some (asset_setitem a k (Some v))\<rparr>"
  have st0: "u_data st0 = u_data st" "u_env_line st0 = u_env_line st"
    by (simp_all add: st0_def)
  show ?thesis
  proof (cases "assets_to_update (name (asset_setitem a k (Some v)))")
    case None
    then have "st' = st0\<lparr>u_data := (u_data st0)[cnt := original_line]\<rparr>"
      using assms(1) by (simp add: update_asset_field_def Let_def st0_def)
    then show ?thesis
      by (simp add: st0)
  next
    case (Some new_asset)
    show ?thesis
    proof (cases "k = ''artifact'' \<and> match_colon_plus v")
      case True
      then obtain st1 where pv: "patch_variable new_asset v st0 = Inr st1"
        and st': "st' = st1\<lparr>u_data := (u_data st1)[cnt := original_line]\<rparr>"
        using assms(1) Some
        by (cases "patch_variable new_asset v st0") (simp_all add: update_asset_field_def Let_def st0_def)
      from patch_variable_frame [OF pv] show ?thesis
        by (simp add: st' st0)
    next
      case False
      then obtain new_line artifact_updated where
        pf: "patch_field other_attrs new_asset k v original_line = Inr (new_line, artifact_updated)"
        using assms(1) Some
        by (cases "patch_field other_attrs new_asset k v original_line")
          (auto simp: update_asset_field_def Let_def)
      have "st' = (if artifact_updated
                   then st0\<lparr>u_updated_assets := (u_updated_assets st0)(name new_asset \<mapsto> new_asset)\<rparr>
                   else st0)\<lparr>u_data := (u_data st0)[cnt := new_line]\<rparr>"
        using assms(1) Some False pf
        by (cases artifact_updated) (simp_all add: update_asset_field_def Let_def st0_def)
      then show ?thesis
        by (simp add: st0)
    qed
  qed
qed

lemma update_line_frame:
  assumes "update_line other_attrs assets_to_update cnt st = Inr st'"
  shows "length (u_data st') = length (u_data st) \<and>
         (\<forall>k n. u_env_line st' k = Some n \<longrightarrow> u_env_line st k = Some n \<or> n = cnt) \<and>
         (\<forall>j. j \<noteq> cnt \<longrightarrow> (\<forall>k. u_env_line st k \<noteq> Some j) \<longrightarrow> u_data st' ! j = u_data st ! j)"
proof -
  have idx: "py_index (u_data st) cnt = Inr (u_data st ! cnt)"
    using assms by (cases "cnt < length (u_data st)") (simp_all add: update_line_def py_index_def)
  define line where "line = str_strip (u_data st ! cnt)"
  consider (open') "match_maven_jar line"
    | (close') "\<not> match_maven_jar line" "u_current_asset st \<noteq> None \<and> match_close line"
    | (assign) "\<not> match_maven_jar line" "\<not> (u_current_asset st \<noteq> None \<and> match_close line)"
        "match_assignment line"
    | (other) "\<not> match_maven_jar line" "\<not> (u_current_asset st \<noteq> None \<and> match_close line)"
        "\<not> match_assignment line"
    by blast
  then show ?thesis
  proof cases
    case open'
    then have "st' = st\<lparr>u_current_asset := Some Asset\<rparr>"
      using assms idx by (simp add: update_line_def line_def)
    then show ?thesis by simp
  next
    case close'
    then have "st' = st\<lparr>u_current_asset := None\<rparr>"
      using assms idx by (simp add: update_line_def line_def)
    then show ?thesis by simp
  next
    case other
    then have "st' = st"
      using assms idx by (auto simp: update_line_def line_def Let_def)
    then show ?thesis by simp
  next
    case assign
    then obtain k v where kv: "parse_property line ''='' = Inr (k, v)"
      using assms idx
      by (cases "parse_property line ''=''") (auto simp: update_line_def line_def)
    show ?thesis
    proof (cases "u_current_asset st")
      case None
      then have "st' = st\<lparr>u_env := (u_env st)(k \<mapsto> v), u_env_line := (u_env_line st)(k \<mapsto> cnt)\<rparr>"
        using assms idx assign kv by (simp add: update_line_def line_def [symmetric])
      then show ?thesis by (auto split: if_splits)
    next
      case (Some a)
      then have "update_asset_field other_attrs assets_to_update cnt (u_data st ! cnt) k v a st = Inr st'"
        using assms idx assign kv by (simp add: update_line_def line_def [symmetric])
      from update_asset_field_frame [OF this refl] show ?thesis
        by simp
    qed
  qed
qed

lemma update_prefix_invariant:
  "fold_err (update_line other_attrs assets_to_update) [0..<i] (update_start data) = Inr st \<Longrightarrow>
   length (u_data st) = length data \<and> (\<forall>k n. u_env_line st k = Some n \<longrightarrow> n < i) \<and>
   (\<forall>j. i \<le> j \<longrightarrow> u_data st ! j = data ! j)"
proof (induction i arbitrary: st)
  case 0
  then have "st = update_start data" by simp
  then show ?case by (simp add: update_start_def)
next
  case (Suc i)
  from Suc.prems obtain st0 where
    pre: "fold_err (update_line other_attrs assets_to_update) [0..<i] (update_start data) = Inr st0"
    and step: "update_line other_attrs assets_to_update i st0 = Inr st"
    by (auto simp: fold_err_append split: sum.splits)
  note ih = Suc.IH [OF pre]
  note fr = update_line_frame [OF step]
  have len: "length (u_data st) = length data"
    using ih fr by simp
  have lines: "n < Suc i" if "u_env_line st k = Some n" for k n
  proof -
    from fr that have "u_env_line st0 k = Some n \<or> n = i" by blast
    with ih show ?thesis by (auto simp: less_Suc_eq)
  qed
  have data: "u_data st ! j = data ! j" if "Suc i \<le> j" for j
  proof -
    have "\<forall>k. u_env_line st0 k \<noteq> Some j"
      using ih that by (metis Suc_le_lessD less_irrefl less_trans)
    moreover have "j \<noteq> i"
      using that by simp
    ultimately have "u_data st ! j = u_data st0 ! j"
      using fr by blast
    also have "\<dots> = data ! j"
      using ih that by simp
    finally show ?thesis .
  qed
  show ?case
    using len lines data by blast
qed

lemma update_suffix_invariant:
  "fold_err (update_line other_attrs assets_to_update) xs st = Inr st' \<Longrightarrow>
   \<forall>x \<in> set xs. x \<noteq> i \<Longrightarrow> \<forall>k. u_env_line st k \<noteq> Some i \<Longrightarrow>
   u_data st' ! i = u_data st ! i"
proof (induction xs arbitrary: st)
  case Nil
  then show ?case by simp
next
  case (Cons x xs)
  from Cons.prems(1) obtain st1 where
    step: "update_line other_attrs assets_to_update x st = Inr st1"
    and rest: "fold_err (update_line other_attrs assets_to_update) xs st1 = Inr st'"
    by (auto split: sum.splits)
  note fr = update_line_frame [OF step]
  have xi: "i \<noteq> x"
    using Cons.prems(2) by auto
  have d1: "u_data st1 ! i = u_data st ! i"
    using fr xi Cons.prems(3) by blast
  have e1: "\<forall>k. u_env_line st1 k \<noteq> Some i"
    using fr xi Cons.prems(3) by blast
  have "u_data st' ! i = u_data st1 ! i"
    using Cons.IH [OF rest _ e1] Cons.prems(2) by simp
  with d1 show ?case by simp
qed

lemma str_strip_Cons: "\<not> is_space c \<Longrightarrow> \<exists>t. str_strip (c # xs) = c # t"
proof -
  assume c: "\<not> is_space c"
  have "dropWhile is_space (rev xs @ [c]) = dropWhile is_space (rev xs) @ [c]"
    using c by (induction "rev xs" arbitrary: xs) (auto simp: dropWhile_append3)
  then show ?thesis
    using c by (simp add: str_strip_def)
qed

lemma maven_jar_key:
  assumes "match_maven_jar line" and "parse_property line ''='' = Inr (k, v)"
  shows "k \<noteq> ''sha1''"
proof -
  obtain rest where line: "line = ''maven_jar('' @ rest"
    using assms(1) by (auto simp: match_maven_jar_def prefix_def)
  have eq: "CHR ''='' \<in> set line"
    using assms(2) by (simp add: parse_property_char split: if_splits)
  then have k: "k = str_strip (filter (\<lambda>c. c \<noteq> CHR ''#'') (takeWhile (\<lambda>c. c \<noteq> CHR ''='') line))"
    using assms(2) by (simp add: parse_property_char)
  obtain t where "k = CHR ''m'' # t"
    using str_strip_Cons [of "CHR ''m''"] unfolding k line by (simp add: is_space_def) blast
  then show ?thesis by simp
qed

lemma close_no_assignment: "match_close line \<Longrightarrow> \<not> match_assignment line"
  by (auto simp: match_close_def match_assignment_def)

lemma snapshot_step:
  assumes "cnt < length (u_data st)" and "u_current_asset st = Some a"
    and "match_assignment (str_strip (u_data st ! cnt))"
    and "parse_property (str_strip (u_data st ! cnt)) ''='' = Inr (''sha1'', v)"
    and "assets_to_update (name a) = Some new_asset"
    and "sha1 new_asset = Some new_val" and "new_val \<noteq> v"
    and "artifact new_asset = Some new_artifact" and "sublist ''SNAPSHOT'' new_artifact"
  shows "\<exists>st'. update_line other_attrs assets_to_update cnt st = Inr st' \<and>
           u_data st' ! cnt = ''    #sha1 = '' @ [CHR 0x22] @ new_val @ [CHR 0x22] @ '','' @ [CHR 0x0A] \<and>
           u_env_line st' = u_env_line st"
proof -
  define line where "line = str_strip (u_data st ! cnt)"
  have idx: "py_index (u_data st) cnt = Inr (u_data st ! cnt)"
    using assms(1) by (simp add: py_index_def)
  have no_open: "\<not> match_maven_jar line"
    using maven_jar_key [of line "''sha1''" v] assms(4) by (auto simp: line_def)
  have no_close: "\<not> match_close line"
    using close_no_assignment [of line] assms(3) by (auto simp: line_def)
  have field: "patch_field other_attrs new_asset ''sha1'' v (u_data st ! cnt) =
      Inr (''    #sha1 = '' @ [CHR 0x22] @ new_val @ [CHR 0x22] @ '','' @ [CHR 0x0A], False)"
    using assms(6,7,8,9)
    by (auto simp: patch_field_def py_getattr_def asset_field_def attr_of_field_def)
  have nm: "name (asset_setitem a ''sha1'' (Some v)) = name a"
    by (simp add: asset_setitem_def)
  have "update_asset_field other_attrs assets_to_update cnt (u_data st ! cnt) ''sha1'' v a st =
      Inr (st\<lparr>u_current_asset := Some (asset_setitem a ''sha1'' (Some v)),
              u_data := (u_data st)[cnt := ''    #sha1 = '' @ [CHR 0x22] @ new_val @ [CHR 0x22] @ '','' @
                                              [CHR 0x0A]]\<rparr>)"
    by (simp add: update_asset_field_def Let_def nm assms(5) field)
  then have "update_line other_attrs assets_to_update cnt st =
      Inr (st\<lparr>u_current_asset := Some (asset_setitem a ''sha1'' (Some v)),
              u_data := (u_data st)[cnt := ''    #sha1 = '' @ [CHR 0x22] @ new_val @ [CHR 0x22] @ '','' @
                                              [CHR 0x0A]]\<rparr>)"
    using idx no_open no_close assms(2,3,4)
    by (simp add: update_line_def line_def [symmetric])
  then show ?thesis
    using assms(1) by simp
qed

lemmas update_eval = update_bazel_file_def update_line_def update_asset_field_def patch_field_def
  patch_variable_def update_start_def py_getattr_def asset_field_def attr_of_field_def attr_str_def
  match_colon_plus_def match_maven_jar_def match_close_def match_assignment_def parse_property_def
  str_split_def py_index_def str_replace_def str_strip_def is_space_def asset_setitem_def Asset_def
  snapshot_file_def snapshot_asset_def Let_def

text \<open>
  C8, as stated, fails for a record whose \<open>sha1\<close> line stands before its \<open>name\<close> line.
  The record \<open>lib\<close> is selected for update, its digest changes from \<open>aaa\<close> to \<open>bbb\<close> and
  the new artifact is a snapshot build; \<open>update_bazel_file\<close> rewrites the artifact line,
  and leaves the digest line as it was, active and with the old digest.
\<close>

theorem snapshot_late_name_counterexample:
  "update_bazel_file Map.empty late_name_file [Some ''lib'' \<mapsto> snapshot_asset] =
     Inr ([''maven_jar('' @ [CHR 0x0A],
           ''    sha1 = '' @ [CHR 0x22] @ ''aaa'' @ [CHR 0x22] @ '','' @ [CHR 0x0A],
           ''    name = '' @ [CHR 0x22] @ ''lib'' @ [CHR 0x22] @ '','' @ [CHR 0x0A],
           ''        artifact = '' @ [CHR 0x22] @ ''com.x:lib:1.3.0-SNAPSHOT'' @ [CHR 0x22] @ '','' @ [CHR 0x0A],
           '')'' @ [CHR 0x0A]],
          [Some ''lib'' \<mapsto> snapshot_asset]) \<and>
   late_name_file ! 1 \<noteq> ''    #sha1 = '' @ [CHR 0x22] @ ''bbb'' @ [CHR 0x22] @ '','' @ [CHR 0x0A] \<and>
   sha1 snapshot_asset = Some ''bbb'' \<and>
   artifact snapshot_asset = Some ''com.x:lib:1.3.0-SNAPSHOT''"
  by (simp add: update_eval late_name_file_def upt_rec sublist_Cons_right)

text \<open>
  C8, amended. Let \<open>update_bazel_file\<close> return, having written the lines \<open>data'\<close>. If
  line \<open>i\<close> of the file is read inside a record (the loop reaches it with a current
  asset), is a field line whose key is \<open>sha1\<close> and whose value is \<open>v\<close>, the name read
  so far in that record (the name line stands before line \<open>i\<close>) selects a record of
  \<open>assets_to_update\<close> whose \<open>sha1\<close> is a string other than \<open>v\<close> and whose artifact holds
  \<open>SNAPSHOT\<close>, then line \<open>i\<close> of \<open>data'\<close> is the commented line \<open>#sha1 = "new value",\<close>
  after four spaces.
\<close>

theorem snapshot_digest_line_commented:
  assumes "update_bazel_file other_attrs data assets_to_update = Inr (data', updated_assets)"
    and "i < length data"
    and "fold_err (update_line other_attrs assets_to_update) [0..<i] (update_start data) = Inr st"
    and "u_current_asset st = Some current_asset"
    and "match_assignment (str_strip (data ! i))"
    and "parse_property (str_strip (data ! i)) ''='' = Inr (''sha1'', v)"
    and "assets_to_update (name current_asset) = Some new_asset"
    and "sha1 new_asset = Some new_val" and "new_val \<noteq> v"
    and "artifact new_asset = Some new_artifact" and "sublist ''SNAPSHOT'' new_artifact"
  shows "data' ! i = ''    #sha1 = '' @ [CHR 0x22] @ new_val @ [CHR 0x22] @ '','' @ [CHR 0x0A]"
proof -
  let ?f = "update_line other_attrs assets_to_update"
  obtain stf where whole: "fold_err ?f [0..<length data] (update_start data) = Inr stf"
    and data': "data' = u_data stf"
    using assms(1) by (auto simp: update_bazel_file_def split: sum.splits)
  have split: "[0..<length data] = [0..<i] @ i # [Suc i..<length data]"
  proof -
    have "[0..<i + (length data - i)] = [0..<i] @ [i..<i + (length data - i)]"
      by (rule upt_add_eq_append) simp
    then have "[0..<length data] = [0..<i] @ [i..<length data]"
      using assms(2) by simp
    then show ?thesis
      using assms(2) by (simp add: upt_conv_Cons)
  qed
  note inv = update_prefix_invariant [OF assms(3)]
  have here: "u_data st ! i = data ! i" and len: "i < length (u_data st)"
    using inv assms(2) by simp_all
  obtain st1 where step: "?f i st = Inr st1"
    and line: "u_data st1 ! i = ''    #sha1 = '' @ [CHR 0x22] @ new_val @ [CHR 0x22] @ '','' @ [CHR 0x0A]"
    and lines: "u_env_line st1 = u_env_line st"
  proof -
    have m: "match_assignment (str_strip (u_data st ! i))"
      using assms(5) by (simp add: here)
    have p: "parse_property (str_strip (u_data st ! i)) ''='' = Inr (''sha1'', v)"
      using assms(6) by (simp add: here)
    from snapshot_step [where assets_to_update = assets_to_update and other_attrs = other_attrs,
        OF len assms(4) m p assms(7,8,9,10,11)]
    show ?thesis using that by blast
  qed
  have rest: "fold_err ?f [Suc i..<length data] st1 = Inr stf"
    using whole assms(3) step unfolding split by (simp add: fold_err_append)
  have "\<forall>k. u_env_line st1 k \<noteq> Some i"
    using inv lines by (metis less_irrefl)
  moreover have "\<forall>x \<in> set [Suc i..<length data]. x \<noteq> i"
    by auto
  ultimately have "u_data stf ! i = u_data st1 ! i"
    using update_suffix_invariant [OF rest] by blast
  then show ?thesis
    by (simp add: data' line)
qed

lemma snapshot_prefix:
  "fold_err (update_line Map.empty [Some ''lib'' \<mapsto> snapshot_asset]) [0..<3] (update_start snapshot_file) =
     Inr \<lparr>u_env = Map.empty, u_env_line = Map.empty,
          u_updated_assets = [Some ''lib'' \<mapsto> snapshot_asset],
          u_data = snapshot_file[2 := ''        artifact = '' @ [CHR 0x22] @ ''com.x:lib:1.3.0-SNAPSHOT'' @
                                       [CHR 0x22] @ '','' @ [CHR 0x0A]],
          u_current_asset = Some (Asset\<lparr>name := Some ''lib'', artifact := Some ''com.x:lib:1.2.3''\<rparr>)\<rparr>"
  by (simp add: update_eval upt_rec sublist_Cons_right)

lemma snapshot_run:
  "update_bazel_file Map.empty snapshot_file [Some ''lib'' \<mapsto> snapshot_asset] =
     Inr ([''maven_jar('' @ [CHR 0x0A],
           ''    name = '' @ [CHR 0x22] @ ''lib'' @ [CHR 0x22] @ '','' @ [CHR 0x0A],
           ''        artifact = '' @ [CHR 0x22] @ ''com.x:lib:1.3.0-SNAPSHOT'' @ [CHR 0x22] @ '','' @ [CHR 0x0A],
           ''    #sha1 = '' @ [CHR 0x22] @ ''bbb'' @ [CHR 0x22] @ '','' @ [CHR 0x0A],
           '')'' @ [CHR 0x0A]],
          [Some ''lib'' \<mapsto> snapshot_asset])"
  by (simp add: update_eval upt_rec sublist_Cons_right)


theorem snapshot_digest_line_commented_witness:
  "update_bazel_file Map.empty snapshot_file [Some ''lib'' \<mapsto> snapshot_asset] =
     Inr ([''maven_jar('' @ [CHR 0x0A],
           ''    name = '' @ [CHR 0x22] @ ''lib'' @ [CHR 0x22] @ '','' @ [CHR 0x0A],
           ''        artifact = '' @ [CHR 0x22] @ ''com.x:lib:1.3.0-SNAPSHOT'' @ [CHR 0x22] @ '','' @ [CHR 0x0A],
           ''    #sha1 = '' @ [CHR 0x22] @ ''bbb'' @ [CHR 0x22] @ '','' @ [CHR 0x0A],
           '')'' @ [CHR 0x0A]],
          [Some ''lib'' \<mapsto> snapshot_asset]) \<and>
   [''maven_jar('' @ [CHR 0x0A],
    ''    name = '' @ [CHR 0x22] @ ''lib'' @ [CHR 0x22] @ '','' @ [CHR 0x0A],
    ''        artifact = '' @ [CHR 0x22] @ ''com.x:lib:1.3.0-SNAPSHOT'' @ [CHR 0x22] @ '','' @ [CHR 0x0A],
    ''    #sha1 = '' @ [CHR 0x22] @ ''bbb'' @ [CHR 0x22] @ '','' @ [CHR 0x0A],
    '')'' @ [CHR 0x0A]] ! 3 = ''    #sha1 = '' @ [CHR 0x22] @ ''bbb'' @ [CHR 0x22] @ '','' @ [CHR 0x0A]"
proof -
  have len: "3 < length snapshot_file"
    by (simp add: snapshot_file_def)
  have cur: "u_current_asset
      \<lparr>u_env = Map.empty, u_env_line = Map.empty,
          u_updated_assets = [Some ''lib'' \<mapsto> snapshot_asset],
          u_data = snapshot_file[2 := ''        artifact = '' @ [CHR 0x22] @ ''com.x:lib:1.3.0-SNAPSHOT'' @
                                       [CHR 0x22] @ '','' @ [CHR 0x0A]],
          u_current_asset = Some (Asset\<lparr>name := Some ''lib'', artifact := Some ''com.x:lib:1.2.3''\<rparr>)\<rparr> =
      Some (Asset\<lparr>name := Some ''lib'', artifact := Some ''com.x:lib:1.2.3''\<rparr>)"
    by simp
  have m: "match_assignment (str_strip (snapshot_file ! 3))"
    by (simp add: snapshot_file_def match_assignment_def str_strip_def is_space_def)
  have p: "parse_property (str_strip (snapshot_file ! 3)) ''='' = Inr (''sha1'', ''aaa'')"
    by (simp add: snapshot_file_def parse_property_def str_split_def py_index_def str_replace_def
        str_strip_def is_space_def)
  have sel: "[Some ''lib'' \<mapsto> snapshot_asset]
      (name (Asset\<lparr>name := Some ''lib'', artifact := Some ''com.x:lib:1.2.3''\<rparr>)) = Some snapshot_asset"
    by simp
  have sha: "sha1 snapshot_asset = Some ''bbb''" and ne: "''bbb'' \<noteq> ''aaa''"
    and art: "artifact snapshot_asset = Some ''com.x:lib:1.3.0-SNAPSHOT''"
    and snap: "sublist ''SNAPSHOT'' ''com.x:lib:1.3.0-SNAPSHOT''"
    by (simp_all add: snapshot_asset_def sublist_Cons_right)
  show ?thesis
    using snapshot_digest_line_commented
      [where assets_to_update = "[Some ''lib'' \<mapsto> snapshot_asset]" and other_attrs = Map.empty,
        OF snapshot_run len snapshot_prefix cur m p sel sha ne art snap] snapshot_run
    by simp
qed

end
